theory Spec2Isabelle
  imports Complex_Main
begin

section \<open>JavaScript numbers\<close>

text \<open>
  Every number of \<^verbatim>\<open>process.ts\<close> is an IEEE-754 binary64 value. A finite double is
  modelled by the rational it denotes; an arithmetic operation is the exact operation
  followed by rounding to the nearest double, ties to the even significand. Widths and
  heights are integers read from an image header (32-bit fields), so their sums, maxima,
  differences and halves are exact and are computed on \<open>nat\<close>; quotients of two
  dimensions and the distances from the target ratio are rounded. Overflow and subnormal
  results cannot arise from such operands and are not modelled.
\<close>

function bit_length :: "nat \<Rightarrow> nat" where
  "bit_length n = (if n = 0 then 0 else Suc (bit_length (n div 2)))"
  by pat_completeness auto
termination
  by (relation "measure id") auto

declare bit_length.simps [simp del]

definition binade :: "rat \<Rightarrow> int" where
  \<comment> \<open>for \<open>0 < x\<close>: the exponent \<open>e\<close> with \<open>2 ^ e \<le> x < 2 ^ (e + 1)\<close>\<close>
  "binade x = (if 1 \<le> x then int (bit_length (nat \<lfloor>x\<rfloor>)) - 1
               else - int (bit_length (nat (\<lceil>1 / x\<rceil> - 1))))"

definition pow2 :: "int \<Rightarrow> rat" where
  "pow2 e = (if 0 \<le> e then 2 ^ nat e else 1 / 2 ^ nat (- e))"

definition round_half_even :: "rat \<Rightarrow> int" where
  "round_half_even x =
     (let f = \<lfloor>x\<rfloor>; d = x - of_int f
      in if d < 1 / 2 then f else if 1 / 2 < d then f + 1 else if even f then f else f + 1)"

definition round_double :: "rat \<Rightarrow> rat" where
  \<comment> \<open>53 significant bits: the unit in the last place of \<open>x\<close> is \<open>2 ^ (binade x - 52)\<close>\<close>
  "round_double x =
     (if x = 0 then 0
      else let u = pow2 (binade \<bar>x\<bar> - 52)
           in sgn x * of_int (round_half_even (\<bar>x\<bar> / u)) * u)"

definition fdiv :: "rat \<Rightarrow> rat \<Rightarrow> rat" where
  \<comment> \<open>\<^verbatim>\<open>a / b\<close> for \<open>b \<noteq> 0\<close>\<close>
  "fdiv a b = round_double (a / b)"

definition fsub :: "rat \<Rightarrow> rat \<Rightarrow> rat" where
  \<comment> \<open>\<^verbatim>\<open>a - b\<close>\<close>
  "fsub a b = round_double (a - b)"

section \<open>Data model\<close>

text \<open>
  The rejections: the error class of \<^verbatim>\<open>process.ts\<close> with its message (its optional code
  and path are never given), the plain error with which the image library rejects, and
  the error the encoder reports.
\<close>

datatype error = ImageProcessingError string | SharpError string | EncoderError string

datatype MergeDirection = HORIZONTAL | VERTICAL

record ImageDimensions =
  width :: nat
  height :: nat
  aspectRatio :: rat

record 'b ImagePair =
  first :: 'b
  second :: 'b

record ProcessingOptions =
  folder :: string
  opt_fps :: "rat option"
  opt_cleanup :: "bool option"

subsection \<open>The image library\<close>

text \<open>
  \<^verbatim>\<open>sharp\<close> is consumed as a black box over an opaque buffer type \<open>'b\<close>:
  \<open>metadata\<close> is \<^verbatim>\<open>sharp(image).metadata()\<close>, which rejects with an error of the
  library on a buffer it cannot read (corrupt, or of an unsupported format) and otherwise
  resolves with metadata whose \<^verbatim>\<open>width\<close> and \<^verbatim>\<open>height\<close> may be undefined; \<open>toBuffer\<close> is
  \<^verbatim>\<open>sharp({create}).composite([...]).jpeg().toBuffer()\<close> applied to the canvas and the
  overlays it is given. Two reads started together under \<^verbatim>\<open>Promise.all\<close> settle in an
  order the code does not control: \<open>rejects_first lib a c\<close> says whether, when both
  reject, the one of \<open>a\<close> does so before the one of \<open>c\<close>. The model covers the runs in
  which composing and the calls of the file system do not reject by themselves.
\<close>

record sharp_metadata =
  meta_width :: "nat option"
  meta_height :: "nat option"

record rgba =
  red :: nat
  green :: nat
  blue :: nat
  alpha :: nat

record canvas =
  create_width :: nat
  create_height :: nat
  channels :: nat
  background :: rgba

record 'b overlay =
  input :: 'b
  left :: nat
  top_px :: nat

record 'b pipeline =
  create :: canvas
  composite :: "'b overlay list"
  output_format :: string

record 'b sharp =
  metadata :: "'b \<Rightarrow> error + sharp_metadata"
  toBuffer :: "'b pipeline \<Rightarrow> 'b"
  rejects_first :: "'b \<Rightarrow> 'b \<Rightarrow> bool"

definition promise_all2 :: "bool \<Rightarrow> error + 'x \<Rightarrow> error + 'y \<Rightarrow> error + 'x \<times> 'y" where
  \<comment> \<open>\<^verbatim>\<open>Promise.all\<close> of two promises: both values, or the rejection that comes first\<close>
  "promise_all2 first_rejects_first p q =
     (case p of
        Inr x \<Rightarrow> (case q of Inr y \<Rightarrow> Inr (x, y) | Inl e \<Rightarrow> Inl e)
      | Inl e1 \<Rightarrow>
          (case q of Inr _ \<Rightarrow> Inl e1 | Inl e2 \<Rightarrow> Inl (if first_rejects_first then e1 else e2)))"

definition falsy :: "nat option \<Rightarrow> bool" where
  \<comment> \<open>\<^verbatim>\<open>!v\<close> for an optional number: undefined or zero\<close>
  "falsy v = (case v of None \<Rightarrow> True | Some n \<Rightarrow> n = 0)"

definition white :: rgba where
  "white = \<lparr>red = 255, green = 255, blue = 255, alpha = 1\<rparr>"

section \<open>Dimension inspector and layout selector\<close>

definition getImageDimensions :: "'b sharp \<Rightarrow> 'b \<Rightarrow> error + ImageDimensions" where
  \<comment> \<open>the \<^verbatim>\<open>await\<close> of the read is unguarded: its rejection is the rejection of the call\<close>
  "getImageDimensions lib img =
     (case metadata lib img of
        Inl e \<Rightarrow> Inl e
      | Inr m \<Rightarrow>
          if falsy (meta_width m) \<or> falsy (meta_height m)
          then Inl (ImageProcessingError ''Invalid image metadata'')
          else Inr \<lparr>width = the (meta_width m), height = the (meta_height m),
                    aspectRatio = fdiv (of_nat (the (meta_width m))) (of_nat (the (meta_height m)))\<rparr>)"

definition determineMergeDirection :: "'b sharp \<Rightarrow> 'b \<Rightarrow> 'b \<Rightarrow> error + MergeDirection" where
  "determineMergeDirection lib image1Buffer image2Buffer =
     (case promise_all2 (rejects_first lib image1Buffer image2Buffer)
             (getImageDimensions lib image1Buffer) (getImageDimensions lib image2Buffer) of
        Inl e \<Rightarrow> Inl e
      | Inr (img1Dims, img2Dims) \<Rightarrow>
          (let horizontalAspectRatio =
                 fdiv (of_nat (width img1Dims + width img2Dims))
                      (of_nat (max (height img1Dims) (height img2Dims)));
               verticalAspectRatio =
                 fdiv (of_nat (max (width img1Dims) (width img2Dims)))
                      (of_nat (height img1Dims + height img2Dims));
               idealAspectRatio = fdiv 9 16;
               horizontalDiff = \<bar>fsub horizontalAspectRatio idealAspectRatio\<bar>;
               verticalDiff = \<bar>fsub verticalAspectRatio idealAspectRatio\<bar>
           in Inr (if horizontalDiff < verticalDiff then HORIZONTAL else VERTICAL)))"

section \<open>Pair compositor\<close>

text \<open>
  The \<^verbatim>\<open>catch\<close> blocks of the two merge functions log the error and throw it again, so
  the rejection they pass on is the one raised inside.
\<close>

definition mergeSideBySide :: "'b sharp \<Rightarrow> 'b \<Rightarrow> 'b \<Rightarrow> error + 'b" where
  "mergeSideBySide lib image1 image2 =
     (case promise_all2 (rejects_first lib image1 image2)
             (metadata lib image1) (metadata lib image2) of
        Inl e \<Rightarrow> Inl e
      | Inr (img1Meta, img2Meta) \<Rightarrow>
          if falsy (meta_width img1Meta) \<or> falsy (meta_width img2Meta) \<or>
             falsy (meta_height img1Meta) \<or> falsy (meta_height img2Meta)
          then Inl (ImageProcessingError ''Invalid image metadata'')
          else
            (let totalHeight = max (the (meta_height img1Meta)) (the (meta_height img2Meta))
             in Inr (toBuffer lib
                  \<lparr>create = \<lparr>create_width = the (meta_width img1Meta) + the (meta_width img2Meta),
                              create_height = totalHeight,
                              channels = 4,
                              background = white\<rparr>,
                   composite =
                     [\<lparr>input = image1, left = 0,
                       top_px = (totalHeight - the (meta_height img1Meta)) div 2\<rparr>,
                      \<lparr>input = image2, left = the (meta_width img1Meta),
                       top_px = (totalHeight - the (meta_height img2Meta)) div 2\<rparr>],
                   output_format = ''jpeg''\<rparr>)))"

definition mergeTopAndBottom :: "'b sharp \<Rightarrow> 'b \<Rightarrow> 'b \<Rightarrow> error + 'b" where
  "mergeTopAndBottom lib image1 image2 =
     (case promise_all2 (rejects_first lib image1 image2)
             (metadata lib image1) (metadata lib image2) of
        Inl e \<Rightarrow> Inl e
      | Inr (img1Meta, img2Meta) \<Rightarrow>
          if falsy (meta_width img1Meta) \<or> falsy (meta_width img2Meta) \<or>
             falsy (meta_height img1Meta) \<or> falsy (meta_height img2Meta)
          then Inl (ImageProcessingError ''Invalid image metadata'')
          else
            (let totalWidth = max (the (meta_width img1Meta)) (the (meta_width img2Meta))
             in Inr (toBuffer lib
                  \<lparr>create = \<lparr>create_width = totalWidth,
                              create_height = the (meta_height img1Meta) + the (meta_height img2Meta),
                              channels = 4,
                              background = white\<rparr>,
                   composite =
                     [\<lparr>input = image1,
                       left = (totalWidth - the (meta_width img1Meta)) div 2, top_px = 0\<rparr>,
                      \<lparr>input = image2,
                       left = (totalWidth - the (meta_width img2Meta)) div 2,
                       top_px = the (meta_height img1Meta)\<rparr>],
                   output_format = ''jpeg''\<rparr>)))"

definition mergeImages :: "'b sharp \<Rightarrow> 'b \<Rightarrow> 'b \<Rightarrow> error + 'b" where
  \<comment> \<open>the \<^verbatim>\<open>default\<close> branch of the switch has no value of the enum to run on\<close>
  "mergeImages lib image1 image2 =
     (case determineMergeDirection lib image1 image2 of
        Inl e \<Rightarrow> Inl e
      | Inr direction \<Rightarrow>
          (case direction of
             HORIZONTAL \<Rightarrow> mergeSideBySide lib image1 image2
           | VERTICAL \<Rightarrow> mergeTopAndBottom lib image1 image2))"

section \<open>Paths and frame names\<close>

text \<open>
  \<^verbatim>\<open>path.join\<close> of two arguments, as on POSIX: the non-empty arguments are glued with a
  slash and the result is normalised (empty and \<^verbatim>\<open>.\<close> segments dropped, \<^verbatim>\<open>..\<close> resolved
  against the segment before it, a leading and a trailing slash kept).
\<close>

fun split_path :: "string \<Rightarrow> string list" where
  "split_path [] = [[]]"
| "split_path (c # cs) =
     (if c = CHR ''/'' then [] # split_path cs
      else (case split_path cs of [] \<Rightarrow> [[c]] | s # ss \<Rightarrow> (c # s) # ss))"

definition push_segment :: "bool \<Rightarrow> string list \<Rightarrow> string \<Rightarrow> string list" where
  "push_segment allowAboveRoot res seg =
     (if seg = [] \<or> seg = ''.'' then res
      else if seg = ''..'' then
        (if res \<noteq> [] \<and> last res \<noteq> ''..'' then butlast res
         else if allowAboveRoot then res @ [''..''] else res)
      else res @ [seg])"

fun unsplit_path :: "string list \<Rightarrow> string" where
  "unsplit_path [] = []"
| "unsplit_path [s] = s"
| "unsplit_path (s # ss) = s @ CHR ''/'' # unsplit_path ss"

definition normalizeString :: "string \<Rightarrow> bool \<Rightarrow> string" where
  "normalizeString path allowAboveRoot =
     unsplit_path (foldl (push_segment allowAboveRoot) [] (split_path path))"

definition normalize_path :: "string \<Rightarrow> string" where
  \<comment> \<open>\<^verbatim>\<open>path.normalize\<close>\<close>
  "normalize_path path =
     (if path = [] then ''.''
      else
        (let isAbsolute = (hd path = CHR ''/'');
             trailingSeparator = (last path = CHR ''/'');
             p = normalizeString path (\<not> isAbsolute)
         in if p = [] then (if isAbsolute then ''/'' else if trailingSeparator then ''./'' else ''.'')
            else (let q = (if trailingSeparator then p @ ''/'' else p)
                  in if isAbsolute then CHR ''/'' # q else q)))"

definition join :: "string \<Rightarrow> string \<Rightarrow> string" where
  "join a c =
     (let joined = (if a = [] then c else if c = [] then a else a @ CHR ''/'' # c)
      in if joined = [] then ''.'' else normalize_path joined)"

definition digit_char :: "nat \<Rightarrow> char" where
  "digit_char d = char_of (48 + d)"

function string_of_nat :: "nat \<Rightarrow> string" where
  "string_of_nat n =
     (if n < 10 then [digit_char n] else string_of_nat (n div 10) @ [digit_char (n mod 10)])"
  by pat_completeness auto
termination
  by (relation "measure id") auto

declare string_of_nat.simps [simp del]

section \<open>The processor\<close>

record ImageVideoProcessor =
  outputDir :: string
  videoOutput :: string
  fps :: rat
  shouldCleanup :: bool

definition new_ImageVideoProcessor :: "string \<Rightarrow> ProcessingOptions \<Rightarrow> ImageVideoProcessor" where
  \<comment> \<open>the constructor; its first argument is \<^verbatim>\<open>env.OUTPUT_DIR\<close>\<close>
  "new_ImageVideoProcessor env_OUTPUT_DIR opts =
     \<lparr>outputDir = join env_OUTPUT_DIR (folder opts),
      videoOutput = ''output.mp4'',
      fps = (case opt_fps opts of None \<Rightarrow> 24 | Some f \<Rightarrow> f),
      shouldCleanup = (case opt_cleanup opts of None \<Rightarrow> False | Some c \<Rightarrow> c)\<rparr>"

definition outputPath :: "ImageVideoProcessor \<Rightarrow> nat \<Rightarrow> string" where
  \<comment> \<open>\<^verbatim>\<open>join(this.outputDir, `${index + 1}.jpg`)\<close>\<close>
  "outputPath proc index = join (outputDir proc) (string_of_nat (index + 1) @ ''.jpg'')"

section \<open>Streaming encoder adapter\<close>

text \<open>
  A promise settles once: \<^verbatim>\<open>resolve\<close> and \<^verbatim>\<open>reject\<close> act on a pending promise only.
\<close>

datatype 'a promise = Pending | Fulfilled 'a | Rejected error

definition resolve :: "'a promise \<Rightarrow> 'a \<Rightarrow> 'a promise" where
  "resolve p v = (case p of Pending \<Rightarrow> Fulfilled v | _ \<Rightarrow> p)"

definition reject :: "'a promise \<Rightarrow> error \<Rightarrow> 'a promise" where
  "reject p e = (case p of Pending \<Rightarrow> Rejected e | _ \<Rightarrow> p)"

record ffmpeg_command =
  input_pattern :: string
  inputFPS :: rat
  format :: string
  videoCodec :: string
  outputOptions :: "string list"

text \<open>
  What the reader of the \<^verbatim>\<open>PassThrough\<close> stream observes, in order: chunks of data, the
  end of the stream, an error of the stream.
\<close>

datatype signal = Data string | End | StreamError string

datatype stream_handle = PassThrough

record session =
  command :: ffmpeg_command
  settled :: "stream_handle promise"
  delivered :: "signal list"
  console :: "string list"

definition createVideoFromImages :: "ImageVideoProcessor \<Rightarrow> string \<Rightarrow> session" where
  \<comment> \<open>the executor of the promise: build the command, attach the handlers, start piping,
      then \<^verbatim>\<open>resolve(passThrough)\<close> before any event of the encoder\<close>
  "createVideoFromImages proc inputDir =
     (let started =
            \<lparr>command = \<lparr>input_pattern = inputDir @ ''/%d.jpg'',
                         inputFPS = fps proc,
                         format = ''mp4'',
                         videoCodec = ''libx264'',
                         outputOptions = [''-movflags frag_keyframe+empty_moov'']\<rparr>,
             settled = Pending,
             delivered = [],
             console = []\<rparr>
      in started\<lparr>settled := resolve (settled started) PassThrough\<rparr>)"

text \<open>
  The events of the encoder after the command has been run. The library pipes the standard
  output of the process into the stream with \<^verbatim>\<open>{ end: true }\<close>: a chunk of output is a
  chunk of the stream, and the stream is ended when the output of the process ends, which
  it does when the process exits, with or without an error. The handlers are the three of
  \<^verbatim>\<open>createVideoFromImages\<close>.
\<close>

datatype ffmpeg_event =
    Start string
  | Output string
  | ExitError string string string
  | ExitEnd

fun on_event :: "session \<Rightarrow> ffmpeg_event \<Rightarrow> session" where
  "on_event s (Start commandLine) =
     s\<lparr>console := console s @ [''Spawned FFmpeg with command: '' @ commandLine]\<rparr>"
| "on_event s (Output chunk) =
     s\<lparr>delivered := delivered s @ [Data chunk]\<rparr>"
| "on_event s (ExitError message stdout stderr) =
     s\<lparr>delivered := delivered s @ [End],
       console := console s @ [''FFmpeg error: '' @ message, ''stdout: '' @ stdout,
                               ''stderr: '' @ stderr],
       settled := reject (settled s) (EncoderError message)\<rparr>"
| "on_event s ExitEnd =
     s\<lparr>delivered := delivered s @ [End],
       console := console s @ [''FFmpeg processing finished'']\<rparr>"

definition on_events :: "session \<Rightarrow> ffmpeg_event list \<Rightarrow> session" where
  "on_events s evs = foldl on_event s evs"

section \<open>Frame sequencer and the whole job\<close>

text \<open>
  The job acts on the files below the output directory and leaves a trace of what it
  did: the directory made, the files written, the encoder run, and the settling of the
  promise it returned.
\<close>

datatype 'b action =
    Mkdir string
  | WriteFile string 'b
  | RunEncoder ffmpeg_command
  | Resolve
  | Reject error

record 'b fs_state =
  files :: "string \<rightharpoonup> 'b"
  trace :: "'b action list"

record 'b job =
  fs :: "'b fs_state"
  failed :: "error option"

definition settle_pair ::
  "ImageVideoProcessor \<Rightarrow> 'b sharp \<Rightarrow> 'b job \<Rightarrow> nat \<times> 'b ImagePair \<Rightarrow> 'b job" where
  \<comment> \<open>one element of \<^verbatim>\<open>mergePromises\<close> settles: the merged buffer is written, or the
      rejection reaches \<^verbatim>\<open>Promise.all\<close>, which rejects on the first one\<close>
  "settle_pair proc lib j ip =
     (case mergeImages lib (first (snd ip)) (second (snd ip)) of
        Inr buffer \<Rightarrow>
          j\<lparr>fs := (fs j)\<lparr>files := (files (fs j))(outputPath proc (fst ip) \<mapsto> buffer),
                           trace := trace (fs j) @ [WriteFile (outputPath proc (fst ip)) buffer]\<rparr>\<rparr>
      | Inl e \<Rightarrow>
          (case failed j of
             None \<Rightarrow> j\<lparr>fs := (fs j)\<lparr>trace := trace (fs j) @ [Reject e]\<rparr>, failed := Some e\<rparr>
           | Some _ \<Rightarrow> j))"

record 'b outcome =
  final :: "'b fs_state"
  returned :: "stream_handle promise"
  encoder :: "session option"

definition mergePromises :: "'b ImagePair list \<Rightarrow> nat list \<Rightarrow> (nat \<times> 'b ImagePair) list" where
  \<comment> \<open>the elements of \<^verbatim>\<open>imagePairs.map((pair, index) => ...)\<close>, each with its index, in the
      order in which they settle (an index beyond the list names no element)\<close>
  "mergePromises imagePairs order =
     map (\<lambda>index. (index, imagePairs ! index)) (filter (\<lambda>index. index < length imagePairs) order)"

definition processImagesAndCreateVideo ::
  "ImageVideoProcessor \<Rightarrow> 'b sharp \<Rightarrow> nat list \<Rightarrow> 'b ImagePair list \<Rightarrow> 'b fs_state \<Rightarrow> 'b outcome"
  where
  \<comment> \<open>\<open>order\<close> is the order in which the concurrent elements of \<^verbatim>\<open>mergePromises\<close>
      settle, a permutation of the indices of \<open>imagePairs\<close>; the function returns the
      promise \<^verbatim>\<open>videoPath\<close>, or rejects with what \<^verbatim>\<open>Promise.all\<close> rejected with\<close>
  "processImagesAndCreateVideo proc lib order imagePairs fs0 =
     (let made = fs0\<lparr>trace := trace fs0 @ [Mkdir (outputDir proc)]\<rparr>;
          done = foldl (settle_pair proc lib) \<lparr>fs = made, failed = None\<rparr>
                   (mergePromises imagePairs order)
      in case failed done of
           Some e \<Rightarrow> \<lparr>final = fs done, returned = Rejected e, encoder = None\<rparr>
         | None \<Rightarrow>
             (let videoPath = createVideoFromImages proc (outputDir proc)
              in \<lparr>final = (fs done)\<lparr>trace := trace (fs done) @ RunEncoder (command videoPath) #
                      (case settled videoPath of
                         Pending \<Rightarrow> [] | Fulfilled _ \<Rightarrow> [Resolve] | Rejected e \<Rightarrow> [Reject e])\<rparr>,
                  returned = settled videoPath,
                  encoder = Some videoPath\<rparr>))"

subsection \<open>A library to run the model on\<close>

text \<open>
  A picture is an input whose header gives (or lacks) a width and a height, or bytes that
  are no image, or the canvas a pipeline describes, with the overlays placed on it.
\<close>

datatype picture =
    Header "nat option" "nat option"
  | Garbage
  | Canvas nat nat "(picture \<times> nat \<times> nat) list"

fun picture_metadata :: "picture \<Rightarrow> error + sharp_metadata" where
  "picture_metadata (Header w h) = Inr \<lparr>meta_width = w, meta_height = h\<rparr>"
| "picture_metadata Garbage = Inl (SharpError ''Input buffer contains unsupported image format'')"
| "picture_metadata (Canvas w h _) = Inr \<lparr>meta_width = Some w, meta_height = Some h\<rparr>"

definition picture_toBuffer :: "picture pipeline \<Rightarrow> picture" where
  "picture_toBuffer p =
     Canvas (create_width (create p)) (create_height (create p))
            (map (\<lambda>ov. (input ov, left ov, top_px ov)) (composite p))"

definition picture_sharp :: "picture sharp" where
  "picture_sharp = \<lparr>metadata = picture_metadata, toBuffer = picture_toBuffer,
                    rejects_first = (\<lambda>a c. True)\<rparr>"

subsection \<open>Notions used in the statements\<close>

text \<open>
  An image is valid when its metadata can be read and neither of the two checks
  \<^verbatim>\<open>!metadata.width\<close> and \<^verbatim>\<open>!metadata.height\<close> fires on it. A plain name is a single path segment other than
  \<^verbatim>\<open>.\<close> and \<^verbatim>\<open>..\<close>; joined to a directory it is appended, after a slash, to what the
  directory normalises to.
\<close>

definition valid_image :: "'b sharp \<Rightarrow> 'b \<Rightarrow> bool" where
  "valid_image lib img \<longleftrightarrow>
     (case metadata lib img of
        Inl _ \<Rightarrow> False
      | Inr m \<Rightarrow> \<not> falsy (meta_width m) \<and> \<not> falsy (meta_height m))"

definition valid_pair :: "'b sharp \<Rightarrow> 'b ImagePair \<Rightarrow> bool" where
  "valid_pair lib p \<longleftrightarrow> valid_image lib (first p) \<and> valid_image lib (second p)"

definition plain_name :: "string \<Rightarrow> bool" where
  "plain_name name \<longleftrightarrow> name \<noteq> [] \<and> CHR ''/'' \<notin> set name \<and> name \<noteq> ''.'' \<and> name \<noteq> ''..''"

definition dir_prefix :: "string \<Rightarrow> string" where
  "dir_prefix a =
     (if a = [] then []
      else (let res = foldl (push_segment (hd a \<noteq> CHR ''/'')) [] (split_path a);
                p = (if res = [] then [] else unsplit_path res @ ''/'')
            in if hd a = CHR ''/'' then CHR ''/'' # p else p))"

definition merged_frame :: "'b sharp \<Rightarrow> 'b ImagePair \<Rightarrow> 'b" where
  "merged_frame lib p = projr (mergeImages lib (first p) (second p))"

definition frame_writes ::
  "ImageVideoProcessor \<Rightarrow> 'b sharp \<Rightarrow> 'b ImagePair list \<Rightarrow> nat list \<Rightarrow> 'b action list" where
  "frame_writes proc lib imagePairs order =
     map (\<lambda>index. WriteFile (outputPath proc index) (merged_frame lib (imagePairs ! index))) order"

definition written :: "'b action list \<Rightarrow> string list" where
  "written acts = concat (map (\<lambda>act. case act of WriteFile path _ \<Rightarrow> [path] | _ \<Rightarrow> []) acts)"

subsection \<open>A job to run the model on\<close>

definition demo_processor :: ImageVideoProcessor where
  "demo_processor =
     new_ImageVideoProcessor ''/var/out'' \<lparr>folder = ''job'', opt_fps = None, opt_cleanup = None\<rparr>"

definition demo_pairs :: "picture ImagePair list" where
  "demo_pairs =
     [\<lparr>first = Header (Some 100) (Some 200), second = Header (Some 200) (Some 100)\<rparr>,
      \<lparr>first = Header (Some 2) (Some 3), second = Header (Some 4) (Some 8)\<rparr>,
      \<lparr>first = Header (Some 11) (Some 18), second = Header (Some 1) (Some 6)\<rparr>]"

definition broken_pairs :: "picture ImagePair list" where
  "broken_pairs =
     [\<lparr>first = Header (Some 100) (Some 200), second = Header (Some 200) (Some 100)\<rparr>,
      \<lparr>first = Header (Some 2) None, second = Header (Some 4) (Some 8)\<rparr>]"

definition garbage_pairs :: "picture ImagePair list" where
  "garbage_pairs =
     [\<lparr>first = Header (Some 100) (Some 200), second = Header (Some 200) (Some 100)\<rparr>,
      \<lparr>first = Garbage, second = Header (Some 4) (Some 8)\<rparr>]"

definition empty_fs :: "picture fs_state" where
  "empty_fs = \<lparr>files = Map.empty, trace = []\<rparr>"

section \<open>The rounding of doubles\<close>

text \<open>
  The rounding function is the one of binary64 arithmetic: \<open>binade\<close> brackets its
  argument between two powers of two, a value with a significand below \<open>2 ^ 53\<close> is
  left as it is, and every other value moves by at most half a unit in the last place.
  In particular integers below \<open>2 ^ 53\<close> and their halves are exact, which is why
  \<^verbatim>\<open>Math.floor((total - h) / 2)\<close> is the integer quotient \<open>(total - h) div 2\<close>.
\<close>

lemma bit_length_pos: "0 < n \<Longrightarrow> 0 < bit_length n"
  by (subst bit_length.simps) simp

lemma bit_length_bounds:
  "0 < n \<Longrightarrow> 2 ^ (bit_length n - 1) \<le> n \<and> n < 2 ^ bit_length n"
proof (induction n rule: bit_length.induct)
  case (1 n)
  show ?case
  proof (cases "n div 2 = 0")
    case True
    with "1.prems" have "n = 1" by presburger
    then show ?thesis
      by (simp add: bit_length.simps [of "Suc 0"] bit_length.simps [of 0])
  next
    case False
    with "1.prems" "1.IH"
    have ih: "2 ^ (bit_length (n div 2) - 1) \<le> n div 2" "n div 2 < 2 ^ bit_length (n div 2)"
      by simp_all
    from False have pos: "0 < bit_length (n div 2)" by (simp add: bit_length_pos)
    from "1.prems" have bl: "bit_length n = Suc (bit_length (n div 2))"
      by (subst bit_length.simps) simp
    from pos have "(2::nat) ^ bit_length (n div 2) = 2 * 2 ^ (bit_length (n div 2) - 1)"
      by (cases "bit_length (n div 2)") simp_all
    with ih(1) have lower: "2 ^ bit_length (n div 2) \<le> n" by arith
    from ih(2) have upper: "n < 2 * 2 ^ bit_length (n div 2)" by arith
    from lower upper show ?thesis by (simp add: bl)
  qed
qed

lemma pow2_add: "pow2 (a + b) = pow2 a * pow2 b"
proof -
  have "pow2 e = 2 powi e" for e
    by (simp add: pow2_def power_int_def field_simps)
  then show ?thesis by (simp add: power_int_add)
qed

lemma pow2_pos: "0 < pow2 e"
  by (simp add: pow2_def)

lemma pow2_nat: "pow2 (int n) = 2 ^ n"
  by (simp add: pow2_def)

lemma pow2_neg: "pow2 (- int n) = 1 / 2 ^ n"
  by (cases "n = 0") (simp_all add: pow2_def)

lemma binade_bounds:
  assumes "0 < x"
  shows "pow2 (binade x) \<le> x \<and> x < pow2 (binade x + 1)"
proof (cases "1 \<le> x")
  case True
  define n where "n = nat \<lfloor>x\<rfloor>"
  from True have n: "0 < n" by (simp add: n_def)
  from True have "rat_of_nat n = of_int \<lfloor>x\<rfloor>" by (simp add: n_def)
  then have fl: "rat_of_nat n \<le> x" "x < rat_of_nat n + 1"
    by linarith+
  from bit_length_bounds [OF n]
  have b: "2 ^ (bit_length n - 1) \<le> n" "Suc n \<le> 2 ^ bit_length n" by simp_all
  from bit_length_pos [OF n] True have e: "binade x = int (bit_length n - 1)"
    by (simp add: binade_def n_def of_nat_diff)
  from bit_length_pos [OF n] True have e1: "binade x + 1 = int (bit_length n)"
    by (simp add: binade_def n_def)
  from b(1) have "rat_of_nat (2 ^ (bit_length n - 1)) \<le> rat_of_nat n"
    by (simp only: of_nat_le_iff)
  then have "pow2 (binade x) \<le> rat_of_nat n"
    by (simp only: e pow2_nat of_nat_power of_nat_numeral)
  with fl(1) have lower: "pow2 (binade x) \<le> x"
    by (rule order_trans [rotated])
  from b(2) have "rat_of_nat (Suc n) \<le> rat_of_nat (2 ^ bit_length n)"
    by (simp only: of_nat_le_iff)
  then have "rat_of_nat n + 1 \<le> pow2 (binade x + 1)"
    by (simp only: e1 pow2_nat of_nat_power of_nat_numeral of_nat_Suc)
  with fl(2) have upper: "x < pow2 (binade x + 1)"
    by (rule less_le_trans)
  from lower upper show ?thesis ..
next
  case False
  define y where "y = 1 / x"
  define n where "n = nat (\<lceil>y\<rceil> - 1)"
  from False assms have y: "1 < y" by (simp add: y_def)
  then have c: "2 \<le> \<lceil>y\<rceil>" by linarith
  then have n: "0 < n" by (simp add: n_def)
  from c have "rat_of_nat n = of_int \<lceil>y\<rceil> - 1" by (simp add: n_def of_nat_nat)
  then have fl: "rat_of_nat n < y" "y \<le> rat_of_nat n + 1"
    by linarith+
  from bit_length_bounds [OF n]
  have b: "2 ^ (bit_length n - 1) \<le> n" "Suc n \<le> 2 ^ bit_length n" by simp_all
  from False have e: "binade x = - int (bit_length n)"
    by (simp add: binade_def n_def y_def)
  from bit_length_pos [OF n] False have e1: "binade x + 1 = - int (bit_length n - 1)"
    by (simp add: binade_def n_def y_def of_nat_diff)
  from b(2) have "rat_of_nat (Suc n) \<le> rat_of_nat (2 ^ bit_length n)"
    by (simp only: of_nat_le_iff)
  then have "rat_of_nat n + 1 \<le> 2 ^ bit_length n"
    by (simp only: of_nat_power of_nat_numeral of_nat_Suc)
  with fl(2) have "1 / x \<le> 2 ^ bit_length n"
    unfolding y_def by (rule order_trans)
  with assms have "1 / 2 ^ bit_length n \<le> x"
    by (simp add: field_simps)
  then have lower: "pow2 (binade x) \<le> x"
    by (simp only: e pow2_neg)
  from b(1) have "rat_of_nat (2 ^ (bit_length n - 1)) \<le> rat_of_nat n"
    by (simp only: of_nat_le_iff)
  then have "2 ^ (bit_length n - 1) \<le> rat_of_nat n"
    by (simp only: of_nat_power of_nat_numeral)
  from this fl(1) have "2 ^ (bit_length n - 1) < 1 / x"
    unfolding y_def by (rule le_less_trans)
  with assms have "x < 1 / 2 ^ (bit_length n - 1)"
    by (simp add: field_simps)
  then have upper: "x < pow2 (binade x + 1)"
    by (simp only: e1 pow2_neg)
  from lower upper show ?thesis ..
qed

lemma pow2_powi: "pow2 e = 2 powi e"
  by (simp add: pow2_def power_int_def field_simps)

lemma pow2_mono: "a \<le> b \<Longrightarrow> pow2 a \<le> pow2 b"
  by (simp add: pow2_powi power_int_increasing)

lemma pow2_diff: "pow2 a / pow2 b = pow2 (a - b)"
  by (simp add: pow2_powi power_int_diff)

lemma round_half_even_of_int: "round_half_even (of_int z) = z"
  by (simp add: round_half_even_def)

lemma round_half_even_near: "\<bar>of_int (round_half_even x) - x\<bar> \<le> 1 / 2"
proof -
  define f where "f = \<lfloor>x\<rfloor>"
  have b: "rat_of_int f \<le> x" "x < rat_of_int f + 1"
    unfolding f_def by linarith+
  consider "x - rat_of_int f < 1 / 2" | "1 / 2 < x - rat_of_int f" | "x - rat_of_int f = 1 / 2"
    by linarith
  then show ?thesis
  proof cases
    case 1
    then have "round_half_even x = f"
      by (simp add: round_half_even_def f_def)
    with 1 b show ?thesis by simp
  next
    case 2
    then have "round_half_even x = f + 1"
      by (simp add: round_half_even_def f_def)
    with 2 b show ?thesis by simp
  next
    case 3
    then have "round_half_even x = f \<or> round_half_even x = f + 1"
      by (simp add: round_half_even_def f_def Let_def)
    with 3 show ?thesis by auto
  qed
qed

lemma round_half_even_tie: "x - of_int \<lfloor>x\<rfloor> = 1 / 2 \<Longrightarrow> even (round_half_even x)"
  by (simp add: round_half_even_def Let_def)

lemma round_double_exact:
  assumes "0 < m" "m < 2 ^ 53"
  shows "round_double (of_int m * pow2 k) = of_int m * pow2 k"
proof -
  define x where "x = rat_of_int m * pow2 k"
  define e where "e = binade x"
  from assms(1) have pos: "0 < x"
    by (simp add: x_def pow2_pos)
  from binade_bounds [OF pos] have low: "pow2 e \<le> x"
    by (simp add: e_def)
  from assms(2) have "rat_of_int m < rat_of_int (2 ^ 53)"
    by (simp only: of_int_less_iff)
  then have "rat_of_int m < pow2 53"
    by (simp add: pow2_def)
  then have "x < pow2 53 * pow2 k"
    by (simp add: x_def pow2_pos)
  with low have "pow2 e < pow2 (53 + k)"
    by (simp add: pow2_add)
  then have "e < 53 + k"
    using pow2_mono [of "53 + k" e] by (cases "e < 53 + k") simp_all
  then have d: "0 \<le> k - (e - 52)" by simp
  have "x / pow2 (e - 52) = rat_of_int m * pow2 (k - (e - 52))"
    by (simp add: x_def pow2_diff [symmetric])
  also from d have "\<dots> = rat_of_int (m * 2 ^ nat (k - (e - 52)))"
    by (simp add: pow2_def)
  finally have q: "x / pow2 (e - 52) = rat_of_int (m * 2 ^ nat (k - (e - 52)))" .
  have "round_double x = rat_of_int (round_half_even (x / pow2 (e - 52))) * pow2 (e - 52)"
    using pos by (simp add: round_double_def e_def Let_def)
  also have "\<dots> = x / pow2 (e - 52) * pow2 (e - 52)"
    by (simp only: q round_half_even_of_int)
  also have "\<dots> = x"
    using pow2_pos [of "e - 52"] by simp
  finally show ?thesis
    by (simp add: x_def)
qed

lemma round_double_near:
  assumes "x \<noteq> 0"
  shows "\<bar>round_double x - x\<bar> \<le> pow2 (binade \<bar>x\<bar> - 53)"
proof -
  define u where "u = pow2 (binade \<bar>x\<bar> - 52)"
  define q where "q = rat_of_int (round_half_even (\<bar>x\<bar> / u))"
  have u: "0 < u" by (simp add: u_def pow2_pos)
  have "pow2 (binade \<bar>x\<bar> - 53 + 1) = pow2 (binade \<bar>x\<bar> - 53) * pow2 1"
    by (rule pow2_add)
  then have half: "pow2 (binade \<bar>x\<bar> - 53) = u / 2"
    by (simp add: u_def pow2_def [of 1])
  from assms have rd: "round_double x = sgn x * q * u"
    by (simp add: round_double_def Let_def u_def q_def)
  have "x = sgn x * \<bar>x\<bar>"
    by (simp add: sgn_if)
  with rd have "round_double x - x = sgn x * (q * u - \<bar>x\<bar>)"
    by (simp add: algebra_simps)
  then have "\<bar>round_double x - x\<bar> = \<bar>sgn x\<bar> * \<bar>q * u - \<bar>x\<bar>\<bar>"
    by (simp only: abs_mult)
  also from assms have "\<bar>sgn x\<bar> = 1"
    by (simp add: sgn_if)
  also from u have "q * u - \<bar>x\<bar> = (q - \<bar>x\<bar> / u) * u"
    by (simp add: left_diff_distrib)
  also from u have "\<bar>(q - \<bar>x\<bar> / u) * u\<bar> = \<bar>q - \<bar>x\<bar> / u\<bar> * u"
    by (simp add: abs_mult)
  finally have eq: "\<bar>round_double x - x\<bar> = \<bar>q - \<bar>x\<bar> / u\<bar> * u"
    by simp
  have "\<bar>q - \<bar>x\<bar> / u\<bar> \<le> 1 / 2"
    unfolding q_def by (rule round_half_even_near)
  with u have "\<bar>q - \<bar>x\<bar> / u\<bar> * u \<le> 1 / 2 * u"
    by (simp only: mult_right_mono less_imp_le)
  with eq show ?thesis
    by (simp add: half)
qed

lemma round_double_of_nat:
  assumes "n < 2 ^ 53"
  shows "round_double (rat_of_nat n) = rat_of_nat n"
proof (cases "n = 0")
  case True
  then show ?thesis by (simp add: round_double_def)
next
  case False
  with assms round_double_exact [of "int n" 0] show ?thesis
    by (simp add: pow2_def)
qed

lemma round_double_half:
  assumes "n < 2 ^ 53"
  shows "round_double (rat_of_nat n / 2) = rat_of_nat n / 2"
proof (cases "n = 0")
  case True
  then show ?thesis by (simp add: round_double_def)
next
  case False
  with assms round_double_exact [of "int n" "- 1"] show ?thesis
    by (simp add: pow2_def)
qed

lemma floor_of_halved_difference:
  assumes "h \<le> t" "t < 2 ^ 53"
  shows "nat \<lfloor>fdiv (fsub (rat_of_nat t) (rat_of_nat h)) 2\<rfloor> = (t - h) div 2"
proof -
  from assms have small: "t - h < 2 ^ 53" by simp
  from assms(1) have "rat_of_nat t - rat_of_nat h = rat_of_nat (t - h)"
    by (simp add: of_nat_diff)
  then have "fsub (rat_of_nat t) (rat_of_nat h) = rat_of_nat (t - h)"
    by (simp only: fsub_def round_double_of_nat [OF small])
  then have "fdiv (fsub (rat_of_nat t) (rat_of_nat h)) 2 = rat_of_nat (t - h) / 2"
    by (simp only: fdiv_def round_double_half [OF small])
  also have "\<dots> = rat_of_nat (t - h) / rat_of_nat 2"
    by simp
  finally show ?thesis
    by (simp only: floor_divide_of_nat_eq nat_int)
qed

section \<open>Layout selection\<close>

lemma ideal_ratio_exact: "fdiv 9 16 = 9 / 16"
  by code_simp

lemma getImageDimensions_valid:
  assumes "metadata lib a = Inr \<lparr>meta_width = Some w, meta_height = Some h\<rparr>"
    and "0 < w" "0 < h"
  shows "getImageDimensions lib a =
           Inr \<lparr>width = w, height = h, aspectRatio = fdiv (of_nat w) (of_nat h)\<rparr>"
  using assms by (simp add: getImageDimensions_def falsy_def)

lemma getImageDimensions_error:
  "getImageDimensions lib a = Inl e \<Longrightarrow>
     e = ImageProcessingError ''Invalid image metadata'' \<or> metadata lib a = Inl e"
  by (simp add: getImageDimensions_def split: sum.splits if_splits)

lemma getImageDimensions_read_error:
  "metadata lib a = Inr m \<Longrightarrow> getImageDimensions lib a = Inl e \<Longrightarrow>
     e = ImageProcessingError ''Invalid image metadata''"
  by (simp add: getImageDimensions_def split: if_splits)

lemma promise_all2_Inr: "promise_all2 r (Inr x) (Inr y) = Inr (x, y)"
  by (simp add: promise_all2_def)

lemma promise_all2_error:
  "promise_all2 r p q = Inl e \<Longrightarrow> p = Inl e \<or> q = Inl e"
  by (simp add: promise_all2_def split: sum.splits if_splits)

lemma promise_all2_rejects:
  "p = Inl e1 \<or> q = Inl e2 \<Longrightarrow> \<exists>e. promise_all2 r p q = Inl e"
  by (auto simp: promise_all2_def split: sum.splits)

text \<open>
  C1 (as amended). For two images with positive dimensions the layout selector returns
  HORIZONTAL exactly when the distance of the horizontal ratio from 9/16 is strictly
  smaller than the distance of the vertical ratio from 9/16, both computed in double
  arithmetic (each quotient rounded, then each difference rounded), and VERTICAL
  otherwise, so that equal computed distances select VERTICAL; the target is exactly 9/16.
\<close>

theorem determineMergeDirection_rounded:
  assumes "metadata lib a = Inr \<lparr>meta_width = Some wa, meta_height = Some ha\<rparr>"
    and "metadata lib c = Inr \<lparr>meta_width = Some wc, meta_height = Some hc\<rparr>"
    and "0 < wa" "0 < ha" "0 < wc" "0 < hc"
  shows "determineMergeDirection lib a c =
           Inr (if \<bar>fsub (fdiv (of_nat (wa + wc)) (of_nat (max ha hc))) (9 / 16)\<bar>
                   < \<bar>fsub (fdiv (of_nat (max wa wc)) (of_nat (ha + hc))) (9 / 16)\<bar>
                then HORIZONTAL else VERTICAL)"
  using assms
  by (simp add: determineMergeDirection_def getImageDimensions_valid promise_all2_Inr
      ideal_ratio_exact Let_def)

theorem determineMergeDirection_rounded_witness:
  "determineMergeDirection picture_sharp (Header (Some 100) (Some 200))
     (Header (Some 200) (Some 100)) = Inr VERTICAL"
proof -
  have "\<not> (\<bar>fsub (fdiv (of_nat (100 + 200)) (of_nat (max 200 100))) (9 / 16)\<bar>
            < \<bar>fsub (fdiv (of_nat (max 100 200)) (of_nat (200 + 100))) (9 / 16)\<bar>)"
    by code_simp
  with determineMergeDirection_rounded [of picture_sharp "Header (Some 100) (Some 200)" 100 200
      "Header (Some 200) (Some 100)" 200 100]
  show ?thesis by (simp add: picture_sharp_def)
qed

text \<open>
  C1 as stated, with the distances taken exactly, fails: for an 11 x 18 and a 1 x 6 image
  the two ratios are 2/3 and 11/24, both at distance 5/48 from 9/16, so the claim selects
  VERTICAL; the quotients round to doubles below 2/3 and below 11/24, the computed
  horizontal distance is the smaller one, and the selector returns HORIZONTAL.
\<close>

theorem determineMergeDirection_exact_tie_counterexample:
  "determineMergeDirection picture_sharp (Header (Some 11) (Some 18)) (Header (Some 1) (Some 6))
     = Inr HORIZONTAL
   \<and> \<not> (\<bar>(11 + 1) / max 18 6 - 9 / 16\<bar> < \<bar>max 11 1 / (18 + 6) - 9 / (16::rat)\<bar>)"
proof
  show "determineMergeDirection picture_sharp (Header (Some 11) (Some 18))
          (Header (Some 1) (Some 6)) = Inr HORIZONTAL"
    by code_simp
  show "\<not> (\<bar>(11 + 1) / max 18 6 - 9 / 16\<bar> < \<bar>max 11 1 / (18 + 6) - 9 / (16::rat)\<bar>)"
    by simp
qed

text \<open>
  C9. For two images whose metadata can be read, with valid dimensions or not, the layout
  selector gives the same answer for the pair and for the pair swapped: the sum and the
  maximum are symmetric, and so is the rejection for a missing width or height.
\<close>

theorem determineMergeDirection_commute:
  assumes "metadata lib a = Inr ma" "metadata lib c = Inr mc"
  shows "determineMergeDirection lib a c = determineMergeDirection lib c a"
proof -
  have same: "e = e'" if "getImageDimensions lib a = Inl e" "getImageDimensions lib c = Inl e'"
    for e e'
    using that assms getImageDimensions_read_error [of lib a ma e]
      getImageDimensions_read_error [of lib c mc e'] by simp
  show ?thesis
  proof (cases "getImageDimensions lib a")
    case (Inl e)
    note left = Inl
    show ?thesis
    proof (cases "getImageDimensions lib c")
      case (Inl e')
      with left same [of e e'] show ?thesis
        by (simp add: determineMergeDirection_def promise_all2_def)
    next
      case (Inr d)
      with left show ?thesis
        by (simp add: determineMergeDirection_def promise_all2_def)
    qed
  next
    case (Inr d)
    note left = Inr
    show ?thesis
    proof (cases "getImageDimensions lib c")
      case (Inl e')
      with left show ?thesis
        by (simp add: determineMergeDirection_def promise_all2_def)
    next
      case (Inr d')
      with left show ?thesis
        by (simp add: determineMergeDirection_def promise_all2_def Let_def add.commute
            max.commute)
    qed
  qed
qed

theorem determineMergeDirection_commute_witness:
  "determineMergeDirection picture_sharp (Header (Some 2) (Some 3)) (Header (Some 4) (Some 8))
     = determineMergeDirection picture_sharp (Header (Some 4) (Some 8)) (Header (Some 2) (Some 3))
   \<and> determineMergeDirection picture_sharp (Header (Some 2) (Some 3)) (Header (Some 4) (Some 8))
     = Inr HORIZONTAL"
proof
  show "determineMergeDirection picture_sharp (Header (Some 2) (Some 3)) (Header (Some 4) (Some 8))
     = determineMergeDirection picture_sharp (Header (Some 4) (Some 8)) (Header (Some 2) (Some 3))"
    by (rule determineMergeDirection_commute) (simp_all add: picture_sharp_def)
  show "determineMergeDirection picture_sharp (Header (Some 2) (Some 3)) (Header (Some 4) (Some 8))
     = Inr HORIZONTAL"
    by code_simp
qed

section \<open>Compositing\<close>

lemma floor_half_difference:
  "n \<le> m \<Longrightarrow> nat \<lfloor>(rat_of_nat m - rat_of_nat n) / 2\<rfloor> = (m - n) div 2"
proof -
  assume le: "n \<le> m"
  then have "(rat_of_nat m - rat_of_nat n) / 2 = rat_of_nat (m - n) / rat_of_nat 2"
    by (simp add: of_nat_diff)
  then have "\<lfloor>(rat_of_nat m - rat_of_nat n) / 2\<rfloor> = int ((m - n) div 2)"
    by (simp only: floor_divide_of_nat_eq)
  then show ?thesis by simp
qed

text \<open>
  C4. Two images with positive dimensions merged HORIZONTAL: the canvas is
  (widthA + widthB) x max(heightA, heightB), 4 channels, opaque white; imageA is placed at
  left 0 and imageB at left widthA, each at the vertical offset
  floor((canvasHeight - imageHeight) / 2). For heightA < heightB the shorter image is at
  floor((heightB - heightA) / 2) and the taller one at 0.
\<close>

theorem mergeSideBySide_layout:
  assumes "metadata lib a = Inr \<lparr>meta_width = Some wa, meta_height = Some ha\<rparr>"
    and "metadata lib c = Inr \<lparr>meta_width = Some wc, meta_height = Some hc\<rparr>"
    and "0 < wa" "0 < ha" "0 < wc" "0 < hc"
  shows "mergeSideBySide lib a c =
           Inr (toBuffer lib
             \<lparr>create = \<lparr>create_width = wa + wc, create_height = max ha hc, channels = 4,
                         background = \<lparr>red = 255, green = 255, blue = 255, alpha = 1\<rparr>\<rparr>,
              composite =
                [\<lparr>input = a, left = 0,
                  top_px = nat \<lfloor>(rat_of_nat (max ha hc) - rat_of_nat ha) / 2\<rfloor>\<rparr>,
                 \<lparr>input = c, left = wa,
                  top_px = nat \<lfloor>(rat_of_nat (max ha hc) - rat_of_nat hc) / 2\<rfloor>\<rparr>],
              output_format = ''jpeg''\<rparr>)
         \<and> (ha < hc \<longrightarrow>
              mergeSideBySide lib a c =
                Inr (toBuffer lib
                  \<lparr>create = \<lparr>create_width = wa + wc, create_height = hc, channels = 4,
                              background = \<lparr>red = 255, green = 255, blue = 255, alpha = 1\<rparr>\<rparr>,
                   composite =
                     [\<lparr>input = a, left = 0,
                       top_px = nat \<lfloor>(rat_of_nat hc - rat_of_nat ha) / 2\<rfloor>\<rparr>,
                      \<lparr>input = c, left = wa, top_px = 0\<rparr>],
                   output_format = ''jpeg''\<rparr>))"
  using assms
  by (simp add: mergeSideBySide_def promise_all2_Inr falsy_def white_def floor_half_difference
      Let_def max_def)

theorem mergeSideBySide_layout_witness:
  "mergeSideBySide picture_sharp (Header (Some 2) (Some 3)) (Header (Some 4) (Some 8)) =
     Inr (Canvas 6 8 [(Header (Some 2) (Some 3), 0, 2), (Header (Some 4) (Some 8), 2, 0)])"
proof -
  have half: "nat \<lfloor>(5::rat) / 2\<rfloor> = 2"
    by code_simp
  from mergeSideBySide_layout [of picture_sharp "Header (Some 2) (Some 3)" 2 3
      "Header (Some 4) (Some 8)" 4 8]
  show ?thesis
    by (simp add: picture_sharp_def picture_toBuffer_def half)
qed

text \<open>
  C5. Two images with positive dimensions merged VERTICAL: the canvas is
  max(widthA, widthB) x (heightA + heightB), 4 channels, opaque white; imageA is placed at
  top 0 and imageB at top heightA, each at the horizontal offset
  floor((canvasWidth - imageWidth) / 2). For two images of equal dimensions w x h the
  canvas is w x 2h and both horizontal offsets are 0.
\<close>

theorem mergeTopAndBottom_layout:
  assumes "metadata lib a = Inr \<lparr>meta_width = Some wa, meta_height = Some ha\<rparr>"
    and "metadata lib c = Inr \<lparr>meta_width = Some wc, meta_height = Some hc\<rparr>"
    and "0 < wa" "0 < ha" "0 < wc" "0 < hc"
  shows "mergeTopAndBottom lib a c =
           Inr (toBuffer lib
             \<lparr>create = \<lparr>create_width = max wa wc, create_height = ha + hc, channels = 4,
                         background = \<lparr>red = 255, green = 255, blue = 255, alpha = 1\<rparr>\<rparr>,
              composite =
                [\<lparr>input = a,
                  left = nat \<lfloor>(rat_of_nat (max wa wc) - rat_of_nat wa) / 2\<rfloor>, top_px = 0\<rparr>,
                 \<lparr>input = c,
                  left = nat \<lfloor>(rat_of_nat (max wa wc) - rat_of_nat wc) / 2\<rfloor>, top_px = ha\<rparr>],
              output_format = ''jpeg''\<rparr>)
         \<and> (wa = wc \<and> ha = hc \<longrightarrow>
              mergeTopAndBottom lib a c =
                Inr (toBuffer lib
                  \<lparr>create = \<lparr>create_width = wa, create_height = 2 * ha, channels = 4,
                              background = \<lparr>red = 255, green = 255, blue = 255, alpha = 1\<rparr>\<rparr>,
                   composite =
                     [\<lparr>input = a, left = 0, top_px = 0\<rparr>,
                      \<lparr>input = c, left = 0, top_px = ha\<rparr>],
                   output_format = ''jpeg''\<rparr>))"
  using assms
  by (simp add: mergeTopAndBottom_def promise_all2_Inr falsy_def white_def floor_half_difference
      Let_def max_def mult_2)

theorem mergeTopAndBottom_layout_witness:
  "mergeTopAndBottom picture_sharp (Header (Some 5) (Some 7)) (Header (Some 5) (Some 7)) =
     Inr (Canvas 5 14 [(Header (Some 5) (Some 7), 0, 0), (Header (Some 5) (Some 7), 0, 7)])"
  using mergeTopAndBottom_layout [of picture_sharp "Header (Some 5) (Some 7)" 5 7
      "Header (Some 5) (Some 7)" 5 7]
  by (simp add: picture_sharp_def picture_toBuffer_def)

section \<open>Frame names\<close>

lemma of_char_digit_char: "d < 10 \<Longrightarrow> (of_char (digit_char d) :: nat) = 48 + d"
  by (simp add: digit_char_def)

lemma digit_char_inj:
  assumes "d < 10" "e < 10" "digit_char d = digit_char e"
  shows "d = e"
proof -
  from assms(3) have "(of_char (digit_char d) :: nat) = of_char (digit_char e)"
    by (rule arg_cong)
  with assms(1,2) have "48 + d = 48 + e"
    by (simp only: of_char_digit_char)
  then show ?thesis by simp
qed

lemma digit_char_not_slash:
  assumes "d < 10"
  shows "digit_char d \<noteq> CHR ''/''"
proof
  assume "digit_char d = CHR ''/''"
  then have "(of_char (digit_char d) :: nat) = of_char CHR ''/''"
    by (rule arg_cong)
  with assms show False
    by (simp add: of_char_digit_char)
qed

lemma string_of_nat_not_Nil: "string_of_nat n \<noteq> []"
  by (subst string_of_nat.simps) simp

lemma string_of_nat_digits: "c \<in> set (string_of_nat n) \<Longrightarrow> \<exists>d<10. c = digit_char d"
proof (induction n rule: string_of_nat.induct)
  case (1 n)
  show ?case
  proof (cases "n < 10")
    case True
    with "1.prems" show ?thesis
      by (subst (asm) string_of_nat.simps) auto
  next
    case False
    with "1.prems" have "c \<in> set (string_of_nat (n div 10)) \<or> c = digit_char (n mod 10)"
      by (subst (asm) string_of_nat.simps) auto
    then show ?thesis
    proof
      assume "c \<in> set (string_of_nat (n div 10))"
      with False "1.IH" show ?thesis by simp
    next
      assume "c = digit_char (n mod 10)"
      moreover have "n mod 10 < 10" by simp
      ultimately show ?thesis by blast
    qed
  qed
qed

lemma string_of_nat_inj: "string_of_nat n = string_of_nat m \<Longrightarrow> n = m"
proof (induction n arbitrary: m rule: string_of_nat.induct)
  case (1 n)
  show ?case
  proof (cases "n < 10")
    case True
    note n_small = True
    show ?thesis
    proof (cases "m < 10")
      case True
      with n_small "1.prems" show ?thesis
        by (simp add: string_of_nat.simps [of n] string_of_nat.simps [of m] digit_char_inj)
    next
      case False
      with n_small "1.prems" have "[digit_char n] = string_of_nat (m div 10) @ [digit_char (m mod 10)]"
        by (simp add: string_of_nat.simps [of n] string_of_nat.simps [of m])
      then have "string_of_nat (m div 10) = []" by simp
      then show ?thesis by (simp add: string_of_nat_not_Nil)
    qed
  next
    case False
    note n_big = False
    show ?thesis
    proof (cases "m < 10")
      case True
      with n_big "1.prems" have "string_of_nat (n div 10) @ [digit_char (n mod 10)] = [digit_char m]"
        by (simp add: string_of_nat.simps [of n] string_of_nat.simps [of m])
      then have "string_of_nat (n div 10) = []" by simp
      then show ?thesis by (simp add: string_of_nat_not_Nil)
    next
      case False
      with n_big "1.prems"
      have eq: "string_of_nat (n div 10) @ [digit_char (n mod 10)]
                 = string_of_nat (m div 10) @ [digit_char (m mod 10)]"
        by (simp add: string_of_nat.simps [of n] string_of_nat.simps [of m])
      then have "string_of_nat (n div 10) = string_of_nat (m div 10)"
        and d: "digit_char (n mod 10) = digit_char (m mod 10)"
        by simp_all
      with n_big "1.IH" have q: "n div 10 = m div 10" by simp
      from d have r: "n mod 10 = m mod 10" by (simp add: digit_char_inj)
      from q r show ?thesis by (metis div_mult_mod_eq)
    qed
  qed
qed


lemma split_path_not_Nil: "split_path p \<noteq> []"
  by (induction p) (auto split: list.splits)

lemma split_path_plain: "CHR ''/'' \<notin> set name \<Longrightarrow> split_path name = [name]"
  by (induction name) auto

lemma split_path_append:
  "CHR ''/'' \<notin> set name \<Longrightarrow> split_path (a @ CHR ''/'' # name) = split_path a @ [name]"
proof (induction a)
  case Nil
  then show ?case by (simp add: split_path_plain)
next
  case (Cons c a)
  then show ?case
    by (cases "split_path a") (auto simp: split_path_not_Nil)
qed

lemma unsplit_path_snoc:
  "unsplit_path (res @ [name]) = (if res = [] then name else unsplit_path res @ CHR ''/'' # name)"
  by (induction res rule: unsplit_path.induct) auto

lemma normalizeString_snoc:
  assumes "plain_name name"
  shows "normalizeString (a @ CHR ''/'' # name) allow =
           (let res = foldl (push_segment allow) [] (split_path a)
            in if res = [] then name else unsplit_path res @ CHR ''/'' # name)"
  using assms
  by (simp add: normalizeString_def plain_name_def split_path_append push_segment_def
      unsplit_path_snoc Let_def)

lemma normalize_path_plain:
  assumes "plain_name name"
  shows "normalize_path name = name"
proof -
  from assms have ne: "name \<noteq> []" and ns: "CHR ''/'' \<notin> set name"
    by (simp_all add: plain_name_def)
  from ne ns have hd: "hd name \<noteq> CHR ''/''" and lst: "last name \<noteq> CHR ''/''"
    by (metis hd_in_set, metis last_in_set)
  from assms have "normalizeString name True = name"
    by (simp add: normalizeString_def plain_name_def split_path_plain push_segment_def)
  with ne hd lst show ?thesis
    by (simp add: normalize_path_def Let_def)
qed

lemma join_plain:
  assumes "plain_name name"
  shows "join a name = dir_prefix a @ name"
proof (cases "a = []")
  case True
  with assms show ?thesis
    by (simp add: join_def dir_prefix_def normalize_path_plain plain_name_def)
next
  case False
  from assms have ne: "name \<noteq> []" and ns: "CHR ''/'' \<notin> set name"
    by (simp_all add: plain_name_def)
  from ne ns have lst: "last name \<noteq> CHR ''/''"
    by (metis last_in_set)
  from False have hd: "hd (a @ CHR ''/'' # name) = hd a" by simp
  from ne have last: "last (a @ CHR ''/'' # name) = last name" by simp
  from False ne have "join a name = normalize_path (a @ CHR ''/'' # name)"
    by (simp add: join_def)
  also from False ne lst have "\<dots> = dir_prefix a @ name"
    by (simp add: normalize_path_def hd last normalizeString_snoc [OF assms] dir_prefix_def Let_def)
  finally show ?thesis .
qed

lemma frame_name_plain: "plain_name (string_of_nat k @ ''.jpg'')"
proof -
  have "CHR ''/'' \<notin> set (string_of_nat k)"
  proof
    assume "CHR ''/'' \<in> set (string_of_nat k)"
    then obtain d where "d < 10" "CHR ''/'' = digit_char d"
      using string_of_nat_digits by blast
    then show False
      using digit_char_not_slash [of d] by simp
  qed
  moreover have "string_of_nat k @ ''.jpg'' \<noteq> ''.''" by simp
  moreover have "string_of_nat k @ ''.jpg'' \<noteq> ''..''" by simp
  ultimately show ?thesis by (simp add: plain_name_def)
qed

lemma outputPath_eq: "outputPath proc i = dir_prefix (outputDir proc) @ string_of_nat (i + 1) @ ''.jpg''"
  by (simp add: outputPath_def join_plain [OF frame_name_plain])

lemma outputPath_inj: "outputPath proc i = outputPath proc j \<Longrightarrow> i = j"
  using string_of_nat_inj [of "i + 1" "j + 1"] by (simp add: outputPath_eq)

section \<open>Merging a pair\<close>

lemma getImageDimensions_invalid:
  "\<not> valid_image lib a \<Longrightarrow> \<exists>e. getImageDimensions lib a = Inl e"
  by (auto simp: valid_image_def getImageDimensions_def split: sum.splits)

lemma determineMergeDirection_valid:
  "valid_image lib a \<Longrightarrow> valid_image lib c \<Longrightarrow> \<exists>d. determineMergeDirection lib a c = Inr d"
  by (auto simp: determineMergeDirection_def getImageDimensions_def valid_image_def
      promise_all2_def Let_def split: sum.splits)

lemma mergeSideBySide_valid:
  "valid_image lib a \<Longrightarrow> valid_image lib c \<Longrightarrow> \<exists>buf. mergeSideBySide lib a c = Inr buf"
  by (auto simp: mergeSideBySide_def valid_image_def promise_all2_def Let_def split: sum.splits)

lemma mergeTopAndBottom_valid:
  "valid_image lib a \<Longrightarrow> valid_image lib c \<Longrightarrow> \<exists>buf. mergeTopAndBottom lib a c = Inr buf"
  by (auto simp: mergeTopAndBottom_def valid_image_def promise_all2_def Let_def split: sum.splits)

lemma mergeImages_valid:
  assumes "valid_image lib a" "valid_image lib c"
  shows "\<exists>buf. mergeImages lib a c = Inr buf"
proof -
  from determineMergeDirection_valid [OF assms]
  obtain d where d: "determineMergeDirection lib a c = Inr d" ..
  from mergeSideBySide_valid [OF assms]
  obtain b1 where b1: "mergeSideBySide lib a c = Inr b1" ..
  from mergeTopAndBottom_valid [OF assms]
  obtain b2 where b2: "mergeTopAndBottom lib a c = Inr b2" ..
  show ?thesis
    by (cases d) (simp_all add: mergeImages_def d b1 b2)
qed

lemma determineMergeDirection_invalid:
  assumes "\<not> (valid_image lib a \<and> valid_image lib c)"
  shows "\<exists>e. determineMergeDirection lib a c = Inl e"
proof -
  from assms have "(\<exists>e. getImageDimensions lib a = Inl e) \<or> (\<exists>e. getImageDimensions lib c = Inl e)"
    using getImageDimensions_invalid [of lib a] getImageDimensions_invalid [of lib c] by auto
  then obtain e1 e2 where "getImageDimensions lib a = Inl e1 \<or> getImageDimensions lib c = Inl e2"
    by auto
  then have "\<exists>e. promise_all2 (rejects_first lib a c) (getImageDimensions lib a)
                 (getImageDimensions lib c) = Inl e"
    by (rule promise_all2_rejects)
  then obtain e where "promise_all2 (rejects_first lib a c) (getImageDimensions lib a)
                 (getImageDimensions lib c) = Inl e" ..
  then show ?thesis
    by (simp add: determineMergeDirection_def)
qed

lemma mergeImages_invalid:
  assumes "\<not> (valid_image lib a \<and> valid_image lib c)"
  shows "\<exists>e. mergeImages lib a c = Inl e"
proof -
  from determineMergeDirection_invalid [OF assms]
  obtain e where "determineMergeDirection lib a c = Inl e" ..
  then show ?thesis
    by (simp add: mergeImages_def)
qed

lemma determineMergeDirection_error:
  assumes "determineMergeDirection lib a c = Inl e"
  shows "e = ImageProcessingError ''Invalid image metadata'' \<or> metadata lib a = Inl e
         \<or> metadata lib c = Inl e"
proof -
  from assms have "promise_all2 (rejects_first lib a c) (getImageDimensions lib a)
      (getImageDimensions lib c) = Inl e"
    by (simp add: determineMergeDirection_def Let_def split: sum.splits prod.splits)
  then have "getImageDimensions lib a = Inl e \<or> getImageDimensions lib c = Inl e"
    by (rule promise_all2_error)
  then show ?thesis
    using getImageDimensions_error [of lib a e] getImageDimensions_error [of lib c e] by auto
qed

lemma mergeSideBySide_error:
  assumes "mergeSideBySide lib a c = Inl e"
  shows "e = ImageProcessingError ''Invalid image metadata'' \<or> metadata lib a = Inl e
         \<or> metadata lib c = Inl e"
proof (cases "promise_all2 (rejects_first lib a c) (metadata lib a) (metadata lib c)")
  case (Inl e')
  with assms have "e' = e"
    by (simp add: mergeSideBySide_def)
  with Inl promise_all2_error [of "rejects_first lib a c" "metadata lib a" "metadata lib c" e]
  show ?thesis by simp
next
  case (Inr ms)
  with assms show ?thesis
    by (simp add: mergeSideBySide_def Let_def split: prod.splits if_splits)
qed

lemma mergeTopAndBottom_error:
  assumes "mergeTopAndBottom lib a c = Inl e"
  shows "e = ImageProcessingError ''Invalid image metadata'' \<or> metadata lib a = Inl e
         \<or> metadata lib c = Inl e"
proof (cases "promise_all2 (rejects_first lib a c) (metadata lib a) (metadata lib c)")
  case (Inl e')
  with assms have "e' = e"
    by (simp add: mergeTopAndBottom_def)
  with Inl promise_all2_error [of "rejects_first lib a c" "metadata lib a" "metadata lib c" e]
  show ?thesis by simp
next
  case (Inr ms)
  with assms show ?thesis
    by (simp add: mergeTopAndBottom_def Let_def split: prod.splits if_splits)
qed

lemma mergeImages_error:
  assumes "mergeImages lib a c = Inl e"
  shows "e = ImageProcessingError ''Invalid image metadata'' \<or> metadata lib a = Inl e
         \<or> metadata lib c = Inl e"
proof (cases "determineMergeDirection lib a c")
  case (Inl e')
  with assms have "e' = e"
    by (simp add: mergeImages_def)
  with Inl show ?thesis
    by (simp add: determineMergeDirection_error)
next
  case (Inr d)
  with assms have "mergeSideBySide lib a c = Inl e \<or> mergeTopAndBottom lib a c = Inl e"
    by (cases d) (simp_all add: mergeImages_def)
  then show ?thesis
    using mergeSideBySide_error [of lib a c e] mergeTopAndBottom_error [of lib a c e] by auto
qed

lemma settle_pair_valid:
  assumes "valid_pair lib (snd t)"
  shows "settle_pair proc lib j t =
           j\<lparr>fs := (fs j)\<lparr>files := (files (fs j))(outputPath proc (fst t) \<mapsto> merged_frame lib (snd t)),
                            trace := trace (fs j) @
                              [WriteFile (outputPath proc (fst t)) (merged_frame lib (snd t))]\<rparr>\<rparr>"
proof -
  from assms have "\<exists>buf. mergeImages lib (first (snd t)) (second (snd t)) = Inr buf"
    by (simp add: mergeImages_valid valid_pair_def)
  then obtain buf where "mergeImages lib (first (snd t)) (second (snd t)) = Inr buf" ..
  then show ?thesis
    by (simp add: settle_pair_def merged_frame_def)
qed

lemma settle_pair_rejected:
  assumes "mergeImages lib (first (snd t)) (second (snd t)) = Inl e"
  shows "settle_pair proc lib j t =
           (case failed j of
              None \<Rightarrow> j\<lparr>fs := (fs j)\<lparr>trace := trace (fs j) @ [Reject e]\<rparr>, failed := Some e\<rparr>
            | Some _ \<Rightarrow> j)"
  using assms by (simp add: settle_pair_def)

lemma settle_all_valid:
  assumes "\<forall>t\<in>set ts. valid_pair lib (snd t)"
  shows "failed (foldl (settle_pair proc lib) j ts) = failed j"
    and "trace (fs (foldl (settle_pair proc lib) j ts)) =
           trace (fs j) @
             map (\<lambda>t. WriteFile (outputPath proc (fst t)) (merged_frame lib (snd t))) ts"
    and "files (fs (foldl (settle_pair proc lib) j ts)) =
           foldl (\<lambda>m t. m(outputPath proc (fst t) \<mapsto> merged_frame lib (snd t))) (files (fs j)) ts"
  using assms by (induction ts arbitrary: j) (simp_all add: settle_pair_valid)

lemma written_lookup:
  assumes "distinct (map fst ts)" "t \<in> set ts"
  shows "foldl (\<lambda>m t. m(outputPath proc (fst t) \<mapsto> merged_frame lib (snd t))) m0 ts
           (outputPath proc (fst t)) = Some (merged_frame lib (snd t))"
  using assms
proof (induction ts arbitrary: t rule: rev_induct)
  case Nil
  then show ?case by simp
next
  case (snoc u ts)
  show ?case
  proof (cases "t = u")
    case True
    then show ?thesis by simp
  next
    case False
    with snoc.prems have mem: "t \<in> set ts" and "fst u \<notin> fst ` set ts" by auto
    then have "fst t \<noteq> fst u" by (metis imageI)
    then have "outputPath proc (fst t) \<noteq> outputPath proc (fst u)"
      using outputPath_inj by blast
    with snoc.IH [OF _ mem] snoc.prems show ?thesis by simp
  qed
qed

lemma written_other:
  assumes "\<forall>t\<in>set ts. path \<noteq> outputPath proc (fst t)"
  shows "foldl (\<lambda>m t. m(outputPath proc (fst t) \<mapsto> merged_frame lib (snd t))) m0 ts path = m0 path"
  using assms by (induction ts rule: rev_induct) simp_all

section \<open>Settling the pairs\<close>

lemma mergeImages_Inr_valid:
  assumes "mergeImages lib a c = Inr buf"
  shows "valid_image lib a \<and> valid_image lib c"
proof (rule ccontr)
  assume "\<not> (valid_image lib a \<and> valid_image lib c)"
  then have "\<exists>e. mergeImages lib a c = Inl e"
    by (rule mergeImages_invalid)
  then obtain e where "mergeImages lib a c = Inl e" ..
  with assms show False by simp
qed

lemma settle_pair_keeps_rejection:
  "failed j = Some e \<Longrightarrow> failed (settle_pair proc lib j t) = Some e"
  by (simp add: settle_pair_def split: sum.splits)

lemma settle_all_rejected:
  "failed j = Some e \<Longrightarrow> failed (foldl (settle_pair proc lib) j ts) = Some e"
  by (induction ts arbitrary: j) (simp_all add: settle_pair_keeps_rejection)

lemma settle_all_invalid:
  assumes "\<exists>t\<in>set ts. \<not> valid_pair lib (snd t)" "failed j = None"
  shows "\<exists>e. failed (foldl (settle_pair proc lib) j ts) = Some e
           \<and> (\<exists>t\<in>set ts. mergeImages lib (first (snd t)) (second (snd t)) = Inl e)"
  using assms
proof (induction ts arbitrary: j)
  case Nil
  then show ?case by simp
next
  case (Cons t ts)
  show ?case
  proof (cases "valid_pair lib (snd t)")
    case True
    with Cons.prems have rest: "\<exists>t\<in>set ts. \<not> valid_pair lib (snd t)" by auto
    from True Cons.prems(2) have "failed (settle_pair proc lib j t) = None"
      by (simp add: settle_pair_valid)
    from Cons.IH [OF rest this] show ?thesis by auto
  next
    case False
    then have "\<exists>e. mergeImages lib (first (snd t)) (second (snd t)) = Inl e"
      by (simp add: valid_pair_def mergeImages_invalid)
    then obtain e where e: "mergeImages lib (first (snd t)) (second (snd t)) = Inl e" ..
    with Cons.prems(2) have "failed (settle_pair proc lib j t) = Some e"
      by (simp add: settle_pair_rejected)
    then have "failed (foldl (settle_pair proc lib) j (t # ts)) = Some e"
      by (simp add: settle_all_rejected)
    with e show ?thesis by auto
  qed
qed

lemma settle_pair_no_encoder:
  "RunEncoder c \<in> set (trace (fs (settle_pair proc lib j t))) \<Longrightarrow>
     RunEncoder c \<in> set (trace (fs j))"
  by (auto simp: settle_pair_def split: sum.splits option.splits)

lemma settle_all_no_encoder:
  "RunEncoder c \<in> set (trace (fs (foldl (settle_pair proc lib) j ts))) \<Longrightarrow>
     RunEncoder c \<in> set (trace (fs j))"
proof (induction ts arbitrary: j)
  case Nil
  then show ?case by simp
next
  case (Cons t ts)
  from Cons.prems have "RunEncoder c \<in> set (trace (fs (settle_pair proc lib j t)))"
    by (simp add: Cons.IH)
  then show ?case
    by (rule settle_pair_no_encoder)
qed

lemma mergePromises_permutation:
  assumes "set order = {..<length imagePairs}"
  shows "mergePromises imagePairs order = map (\<lambda>index. (index, imagePairs ! index)) order"
proof -
  from assms have "filter (\<lambda>index. index < length imagePairs) order = order"
    by (auto simp: filter_id_conv)
  then show ?thesis by (simp add: mergePromises_def)
qed

lemma job_unfold:
  "processImagesAndCreateVideo proc lib order imagePairs fs0 =
     (let done = foldl (settle_pair proc lib)
                   \<lparr>fs = fs0\<lparr>trace := trace fs0 @ [Mkdir (outputDir proc)]\<rparr>, failed = None\<rparr>
                   (mergePromises imagePairs order)
      in case failed done of
           Some e \<Rightarrow> \<lparr>final = fs done, returned = Rejected e, encoder = None\<rparr>
         | None \<Rightarrow>
             \<lparr>final = (fs done)\<lparr>trace := trace (fs done) @
                        [RunEncoder (command (createVideoFromImages proc (outputDir proc))), Resolve]\<rparr>,
              returned = Fulfilled PassThrough,
              encoder = Some (createVideoFromImages proc (outputDir proc))\<rparr>)"
  by (simp add: processImagesAndCreateVideo_def Let_def createVideoFromImages_def resolve_def
      split: option.splits)

lemma job_success:
  assumes perm: "set order = {..<length imagePairs}"
    and ok: "\<forall>p\<in>set imagePairs. \<not> isl (mergeImages lib (first p) (second p))"
  shows "processImagesAndCreateVideo proc lib order imagePairs fs0 =
           \<lparr>final =
              \<lparr>files = foldl (\<lambda>m t. m(outputPath proc (fst t) \<mapsto> merged_frame lib (snd t)))
                         (files fs0) (map (\<lambda>index. (index, imagePairs ! index)) order),
               trace = trace fs0 @ Mkdir (outputDir proc) # frame_writes proc lib imagePairs order @
                         [RunEncoder (command (createVideoFromImages proc (outputDir proc))), Resolve]\<rparr>,
            returned = Fulfilled PassThrough,
            encoder = Some (createVideoFromImages proc (outputDir proc))\<rparr>"
proof -
  let ?ts = "map (\<lambda>index. (index, imagePairs ! index)) order"
  let ?j = "\<lparr>fs = fs0\<lparr>trace := trace fs0 @ [Mkdir (outputDir proc)]\<rparr>, failed = None\<rparr>"
  have valid: "\<forall>t\<in>set ?ts. valid_pair lib (snd t)"
  proof
    fix t assume "t \<in> set ?ts"
    then obtain i where "i \<in> set order" and t: "t = (i, imagePairs ! i)" by auto
    with perm have "imagePairs ! i \<in> set imagePairs" by simp
    with ok have "\<not> isl (mergeImages lib (first (imagePairs ! i)) (second (imagePairs ! i)))"
      by simp
    then have "\<exists>buf. mergeImages lib (first (imagePairs ! i)) (second (imagePairs ! i)) = Inr buf"
      by (cases "mergeImages lib (first (imagePairs ! i)) (second (imagePairs ! i))") simp_all
    then obtain buf
      where "mergeImages lib (first (imagePairs ! i)) (second (imagePairs ! i)) = Inr buf" ..
    then show "valid_pair lib (snd t)"
      by (simp add: t valid_pair_def mergeImages_Inr_valid)
  qed
  have mp: "mergePromises imagePairs order = ?ts"
    by (rule mergePromises_permutation [OF perm])
  have tr: "map (\<lambda>t. WriteFile (outputPath proc (fst t)) (merged_frame lib (snd t))) ?ts
              = frame_writes proc lib imagePairs order"
    by (simp add: frame_writes_def comp_def)
  let ?done = "foldl (settle_pair proc lib) ?j ?ts"
  have a: "failed ?done = None"
    by (simp add: settle_all_valid(1) [OF valid])
  have b: "trace (fs ?done) = trace fs0 @ Mkdir (outputDir proc) # frame_writes proc lib imagePairs order"
    by (simp add: settle_all_valid(2) [OF valid] tr [unfolded comp_def] comp_def frame_writes_def)
  have c: "files (fs ?done) =
             foldl (\<lambda>m t. m(outputPath proc (fst t) \<mapsto> merged_frame lib (snd t))) (files fs0) ?ts"
    by (simp add: settle_all_valid(3) [OF valid])
  have fsd: "(fs ?done)\<lparr>trace := trace (fs ?done) @
                 [RunEncoder (command (createVideoFromImages proc (outputDir proc))), Resolve]\<rparr> =
             \<lparr>files = foldl (\<lambda>m t. m(outputPath proc (fst t) \<mapsto> merged_frame lib (snd t)))
                         (files fs0) ?ts,
              trace = trace fs0 @ Mkdir (outputDir proc) # frame_writes proc lib imagePairs order @
                         [RunEncoder (command (createVideoFromImages proc (outputDir proc))), Resolve]\<rparr>"
    by (rule fs_state.equality) (simp_all add: b c)
  show ?thesis
    unfolding job_unfold mp Let_def by (simp only: a fsd option.case)
qed

section \<open>Frame sequencing\<close>

text \<open>
  C2. When every one of the N pairs merges successfully, then whatever the order in which
  the concurrent per-pair operations complete, the job writes exactly the files 1.jpg to
  N.jpg of the output directory, each once: the file (i + 1).jpg holds the merge of the pair
  at position i, every other path is left as it was, the written names are pairwise
  different, and the files are those of the run that completes the pairs in input order.
\<close>

theorem frames_named_by_input_position:
  assumes "distinct order" "set order = {..<length imagePairs}"
    and "\<forall>p\<in>set imagePairs. \<not> isl (mergeImages lib (first p) (second p))"
  shows "(\<forall>i<length imagePairs.
            files (final (processImagesAndCreateVideo proc lib order imagePairs fs0))
              (join (outputDir proc) (string_of_nat (i + 1) @ ''.jpg''))
            = Some (merged_frame lib (imagePairs ! i)))
       \<and> (\<forall>path. (\<forall>i<length imagePairs.
                      path \<noteq> join (outputDir proc) (string_of_nat (i + 1) @ ''.jpg'')) \<longrightarrow>
            files (final (processImagesAndCreateVideo proc lib order imagePairs fs0)) path
            = files fs0 path)
       \<and> written (trace (final (processImagesAndCreateVideo proc lib order imagePairs fs0)))
            = written (trace fs0) @
              map (\<lambda>i. join (outputDir proc) (string_of_nat (i + 1) @ ''.jpg'')) order
       \<and> distinct (map (\<lambda>i. join (outputDir proc) (string_of_nat (i + 1) @ ''.jpg'')) order)
       \<and> files (final (processImagesAndCreateVideo proc lib order imagePairs fs0))
            = files (final (processImagesAndCreateVideo proc lib [0..<length imagePairs] imagePairs fs0))"
proof -
  let ?ts = "map (\<lambda>index. (index, imagePairs ! index)) order"
  let ?seq = "map (\<lambda>index. (index, imagePairs ! index)) [0..<length imagePairs]"
  let ?upd = "\<lambda>m t. m(outputPath proc (fst t) \<mapsto> merged_frame lib (snd t))"
  have path: "\<And>i. join (outputDir proc) (string_of_nat (i + 1) @ ''.jpg'') = outputPath proc i"
    by (simp add: outputPath_def)
  have fst_ts: "map fst ?ts = order" and fst_seq: "map fst ?seq = [0..<length imagePairs]"
    by (simp_all add: comp_def)
  have seq_perm: "distinct [0..<length imagePairs]" "set [0..<length imagePairs] = {..<length imagePairs}"
    by auto
  have f1: "files (final (processImagesAndCreateVideo proc lib order imagePairs fs0))
              = foldl ?upd (files fs0) ?ts"
    by (simp add: job_success [OF assms(2,3)])
  have f2: "files (final (processImagesAndCreateVideo proc lib [0..<length imagePairs] imagePairs fs0))
              = foldl ?upd (files fs0) ?seq"
    by (simp add: job_success [OF seq_perm(2) assms(3)])
  have look: "foldl ?upd (files fs0) ?ts (outputPath proc i) = Some (merged_frame lib (imagePairs ! i))"
    if "i < length imagePairs" for i
  proof -
    from that assms(2) have mem: "(i, imagePairs ! i) \<in> set ?ts" by auto
    from assms(1) have "distinct (map fst ?ts)" by (simp add: comp_def)
    from written_lookup [OF this mem, of proc lib "files fs0"]
    show ?thesis by simp
  qed
  have look_seq: "foldl ?upd (files fs0) ?seq (outputPath proc i) = Some (merged_frame lib (imagePairs ! i))"
    if "i < length imagePairs" for i
  proof -
    from that have mem: "(i, imagePairs ! i) \<in> set ?seq" by auto
    have "distinct (map fst ?seq)" by (simp add: comp_def)
    from written_lookup [OF this mem, of proc lib "files fs0"]
    show ?thesis by simp
  qed
  have other: "foldl ?upd (files fs0) ?ts p = files fs0 p"
    if "\<forall>i<length imagePairs. p \<noteq> outputPath proc i" for p
  proof (rule written_other)
    show "\<forall>t\<in>set ?ts. p \<noteq> outputPath proc (fst t)"
      using that assms(2) by auto
  qed
  have other_seq: "foldl ?upd (files fs0) ?seq p = files fs0 p"
    if "\<forall>i<length imagePairs. p \<noteq> outputPath proc i" for p
  proof (rule written_other)
    show "\<forall>t\<in>set ?seq. p \<noteq> outputPath proc (fst t)"
      using that by auto
  qed
  have same: "foldl ?upd (files fs0) ?ts = foldl ?upd (files fs0) ?seq"
  proof
    fix p
    show "foldl ?upd (files fs0) ?ts p = foldl ?upd (files fs0) ?seq p"
    proof (cases "\<exists>i<length imagePairs. p = outputPath proc i")
      case True
      then obtain i where "i < length imagePairs" "p = outputPath proc i" by auto
      then show ?thesis by (simp add: look look_seq)
    next
      case False
      then have "\<forall>i<length imagePairs. p \<noteq> outputPath proc i" by simp
      then show ?thesis by (simp add: other other_seq)
    qed
  qed
  have wr: "written (trace (final (processImagesAndCreateVideo proc lib order imagePairs fs0)))
              = written (trace fs0) @ map (outputPath proc) order"
    by (simp add: job_success [OF assms(2,3)] written_def frame_writes_def comp_def
        concat_map_singleton)
  have dist: "distinct (map (outputPath proc) order)"
    using assms(1) by (simp add: distinct_map inj_on_def outputPath_inj)
  show ?thesis
    unfolding path by (simp add: f1 f2 look_seq other_seq wr dist same)
qed

lemma demo_order: "distinct [2, 0, 1::nat]" "set [2, 0, 1] = {..<length demo_pairs}"
  by (auto simp: demo_pairs_def)

lemma demo_pairs_merge: "\<forall>p\<in>set demo_pairs. \<not> isl (mergeImages picture_sharp (first p) (second p))"
  by code_simp

theorem frames_named_by_input_position_witness:
  "files (final (processImagesAndCreateVideo demo_processor picture_sharp [2, 0, 1] demo_pairs empty_fs))
     ''/var/out/job/2.jpg''
   = Some (Canvas 6 8 [(Header (Some 2) (Some 3), 0, 2), (Header (Some 4) (Some 8), 2, 0)])"
proof -
  note inst = frames_named_by_input_position [OF demo_order demo_pairs_merge,
      of demo_processor empty_fs]
  have len: "(1::nat) < length demo_pairs"
    by (simp add: demo_pairs_def)
  from inst [THEN conjunct1, rule_format, OF len]
  have e: "files (final (processImagesAndCreateVideo demo_processor picture_sharp [2, 0, 1]
                    demo_pairs empty_fs))
             (join (outputDir demo_processor) (string_of_nat (1 + 1) @ ''.jpg''))
           = Some (merged_frame picture_sharp (demo_pairs ! 1))" .
  have p: "join (outputDir demo_processor) (string_of_nat (1 + 1) @ ''.jpg'') = ''/var/out/job/2.jpg''"
    by code_simp
  have m: "merged_frame picture_sharp (demo_pairs ! 1)
             = Canvas 6 8 [(Header (Some 2) (Some 3), 0, 2), (Header (Some 4) (Some 8), 2, 0)]"
    by code_simp
  from e show ?thesis unfolding p m .
qed

section \<open>Failure of a job\<close>

text \<open>
  C6 (as amended). If the width or height of any input image cannot be determined,
  because its metadata cannot be read or is read without one of them, then, whatever the
  order in which the pairs complete, the job rejects, no stream is produced and the
  encoder is not run. The job rejects with the error \<^verbatim>\<open>Invalid image metadata\<close> or with
  the error with which the library rejected the read of one of the images; when the
  metadata of every image can be read, it is the error \<^verbatim>\<open>Invalid image metadata\<close>.
\<close>

theorem undetermined_dimensions_reject_job:
  assumes "set order = {..<length imagePairs}"
    and "p \<in> set imagePairs" "img = first p \<or> img = second p"
    and "\<not> valid_image lib img"
  shows "(\<exists>e. returned (processImagesAndCreateVideo proc lib order imagePairs fs0) = Rejected e
            \<and> (e = ImageProcessingError ''Invalid image metadata''
                \<or> (\<exists>q\<in>set imagePairs. metadata lib (first q) = Inl e
                                         \<or> metadata lib (second q) = Inl e)))
       \<and> ((\<forall>q\<in>set imagePairs. \<not> isl (metadata lib (first q)) \<and> \<not> isl (metadata lib (second q)))
            \<longrightarrow> returned (processImagesAndCreateVideo proc lib order imagePairs fs0)
                  = Rejected (ImageProcessingError ''Invalid image metadata''))
       \<and> encoder (processImagesAndCreateVideo proc lib order imagePairs fs0) = None
       \<and> (\<forall>c. RunEncoder c \<in> set (trace (final (processImagesAndCreateVideo proc lib order imagePairs fs0)))
              \<longrightarrow> RunEncoder c \<in> set (trace fs0))"
proof -
  let ?j = "\<lparr>fs = fs0\<lparr>trace := trace fs0 @ [Mkdir (outputDir proc)]\<rparr>, failed = None\<rparr>"
  let ?done = "foldl (settle_pair proc lib) ?j (mergePromises imagePairs order)"
  from assms(2) obtain i where i: "i < length imagePairs" "imagePairs ! i = p"
    by (auto simp: in_set_conv_nth)
  with assms(1) have "(i, p) \<in> set (mergePromises imagePairs order)"
    by (auto simp: mergePromises_permutation)
  moreover from assms(3,4) have "\<not> valid_pair lib (snd (i, p))"
    by (auto simp: valid_pair_def)
  ultimately have "\<exists>t\<in>set (mergePromises imagePairs order). \<not> valid_pair lib (snd t)"
    by (rule rev_bexI)
  then have "\<exists>e. failed ?done = Some e
      \<and> (\<exists>t\<in>set (mergePromises imagePairs order).
            mergeImages lib (first (snd t)) (second (snd t)) = Inl e)"
    by (rule settle_all_invalid) simp
  then obtain e t where failed: "failed ?done = Some e"
    and t: "t \<in> set (mergePromises imagePairs order)"
    and merge: "mergeImages lib (first (snd t)) (second (snd t)) = Inl e"
    by auto
  from t have q: "snd t \<in> set imagePairs"
    by (auto simp: mergePromises_def)
  from mergeImages_error [OF merge]
  have cause: "e = ImageProcessingError ''Invalid image metadata''
      \<or> metadata lib (first (snd t)) = Inl e \<or> metadata lib (second (snd t)) = Inl e" .
  from failed have rejected: "returned (processImagesAndCreateVideo proc lib order imagePairs fs0)
      = Rejected e"
    and none: "encoder (processImagesAndCreateVideo proc lib order imagePairs fs0) = None"
    and final: "final (processImagesAndCreateVideo proc lib order imagePairs fs0) = fs ?done"
    by (simp_all add: job_unfold Let_def)
  from cause q have one: "e = ImageProcessingError ''Invalid image metadata''
      \<or> (\<exists>q\<in>set imagePairs. metadata lib (first q) = Inl e \<or> metadata lib (second q) = Inl e)"
    by auto
  have two: "e = ImageProcessingError ''Invalid image metadata''"
    if "\<forall>q\<in>set imagePairs. \<not> isl (metadata lib (first q)) \<and> \<not> isl (metadata lib (second q))"
  proof -
    from that q have "\<not> isl (metadata lib (first (snd t)))" "\<not> isl (metadata lib (second (snd t)))"
      by simp_all
    with cause show ?thesis by auto
  qed
  have three: "RunEncoder c \<in> set (trace fs0)" if "RunEncoder c \<in> set (trace (fs ?done))" for c
  proof -
    from that have "RunEncoder c \<in> set (trace (fs ?j))"
      by (rule settle_all_no_encoder)
    then show ?thesis by simp
  qed
  from one two three show ?thesis
    unfolding rejected none final by blast
qed

theorem undetermined_dimensions_reject_job_witness:
  "returned (processImagesAndCreateVideo demo_processor picture_sharp [1, 0] broken_pairs empty_fs)
     = Rejected (ImageProcessingError ''Invalid image metadata'')
   \<and> encoder (processImagesAndCreateVideo demo_processor picture_sharp [1, 0] broken_pairs empty_fs)
     = None"
proof -
  have order: "set [1, 0::nat] = {..<length broken_pairs}"
    by (auto simp: broken_pairs_def)
  have mem: "\<lparr>first = Header (Some 2) None, second = Header (Some 4) (Some 8)\<rparr> \<in> set broken_pairs"
    by (simp add: broken_pairs_def)
  have img: "Header (Some 2) None = first \<lparr>first = Header (Some 2) None, second = Header (Some 4) (Some 8)\<rparr>
             \<or> Header (Some 2) None = second \<lparr>first = Header (Some 2) None, second = Header (Some 4) (Some 8)\<rparr>"
    by simp
  have missing: "\<not> valid_image picture_sharp (Header (Some 2) None)"
    by (simp add: valid_image_def picture_sharp_def falsy_def)
  have readable: "\<forall>q\<in>set broken_pairs. \<not> isl (metadata picture_sharp (first q))
                                      \<and> \<not> isl (metadata picture_sharp (second q))"
    by (simp add: broken_pairs_def picture_sharp_def)
  from undetermined_dimensions_reject_job [OF order mem img missing, of demo_processor empty_fs]
    readable
  show ?thesis by blast
qed

text \<open>
  C6 as stated fails on an image whose metadata cannot be read: the read rejects with the
  error of the library, \<^verbatim>\<open>getImageDimensions\<close> does not guard it, and the job rejects
  with that error, not with \<^verbatim>\<open>Invalid image metadata\<close>.
\<close>

theorem unreadable_image_counterexample:
  "\<not> valid_image picture_sharp Garbage
   \<and> first (garbage_pairs ! 1) = Garbage
   \<and> returned (processImagesAndCreateVideo demo_processor picture_sharp [1, 0] garbage_pairs empty_fs)
       = Rejected (SharpError ''Input buffer contains unsupported image format'')
   \<and> returned (processImagesAndCreateVideo demo_processor picture_sharp [1, 0] garbage_pairs empty_fs)
       \<noteq> Rejected (ImageProcessingError ''Invalid image metadata'')"
  by code_simp

section \<open>Resolution of a job\<close>

text \<open>
  C7. When all pairs merge, the job does, in this order: make the directory, write every
  frame file, run the encoder, resolve with the stream. It resolves with the stream while
  the encoder session is still in its initial state: nothing has been delivered and no
  event of the encoder has been handled, so it does not wait for the encoder to finish.
\<close>

theorem resolves_after_writes_and_encoder_start:
  assumes "set order = {..<length imagePairs}"
    and "\<forall>p\<in>set imagePairs. \<not> isl (mergeImages lib (first p) (second p))"
  shows "trace (final (processImagesAndCreateVideo proc lib order imagePairs fs0))
           = trace fs0 @ Mkdir (outputDir proc) # frame_writes proc lib imagePairs order @
               [RunEncoder (command (createVideoFromImages proc (outputDir proc))), Resolve]
       \<and> returned (processImagesAndCreateVideo proc lib order imagePairs fs0) = Fulfilled PassThrough
       \<and> encoder (processImagesAndCreateVideo proc lib order imagePairs fs0)
           = Some (createVideoFromImages proc (outputDir proc))
       \<and> delivered (createVideoFromImages proc (outputDir proc)) = []
       \<and> console (createVideoFromImages proc (outputDir proc)) = []"
  by (simp add: job_success [OF assms]) (simp add: createVideoFromImages_def)

theorem resolves_after_writes_and_encoder_start_witness:
  "trace (final (processImagesAndCreateVideo demo_processor picture_sharp [2, 0, 1] demo_pairs empty_fs))
     = [Mkdir ''/var/out/job'',
        WriteFile ''/var/out/job/3.jpg''
          (Canvas 12 18 [(Header (Some 11) (Some 18), 0, 0), (Header (Some 1) (Some 6), 11, 6)]),
        WriteFile ''/var/out/job/1.jpg''
          (Canvas 200 300 [(Header (Some 100) (Some 200), 50, 0),
                           (Header (Some 200) (Some 100), 0, 200)]),
        WriteFile ''/var/out/job/2.jpg''
          (Canvas 6 8 [(Header (Some 2) (Some 3), 0, 2), (Header (Some 4) (Some 8), 2, 0)]),
        RunEncoder \<lparr>input_pattern = ''/var/out/job/%d.jpg'', inputFPS = 24, format = ''mp4'',
                    videoCodec = ''libx264'',
                    outputOptions = [''-movflags frag_keyframe+empty_moov'']\<rparr>,
        Resolve]
   \<and> returned (processImagesAndCreateVideo demo_processor picture_sharp [2, 0, 1] demo_pairs empty_fs)
     = Fulfilled PassThrough"
proof -
  note inst = resolves_after_writes_and_encoder_start [OF demo_order(2) demo_pairs_merge,
      of demo_processor empty_fs]
  have dir: "outputDir demo_processor = ''/var/out/job''"
    by code_simp
  have writes: "frame_writes demo_processor picture_sharp demo_pairs [2, 0, 1] =
      [WriteFile ''/var/out/job/3.jpg''
         (Canvas 12 18 [(Header (Some 11) (Some 18), 0, 0), (Header (Some 1) (Some 6), 11, 6)]),
       WriteFile ''/var/out/job/1.jpg''
         (Canvas 200 300 [(Header (Some 100) (Some 200), 50, 0),
                          (Header (Some 200) (Some 100), 0, 200)]),
       WriteFile ''/var/out/job/2.jpg''
         (Canvas 6 8 [(Header (Some 2) (Some 3), 0, 2), (Header (Some 4) (Some 8), 2, 0)])]"
    by code_simp
  have cmd: "command (createVideoFromImages demo_processor ''/var/out/job'') =
      \<lparr>input_pattern = ''/var/out/job/%d.jpg'', inputFPS = 24, format = ''mp4'',
        videoCodec = ''libx264'', outputOptions = [''-movflags frag_keyframe+empty_moov'']\<rparr>"
    by code_simp
  from inst [unfolded dir writes cmd] show ?thesis
    by (simp add: empty_fs_def)
qed

section \<open>The encoder\<close>

text \<open>
  C8. The encoder command has the input pattern \<^verbatim>\<open><dir>/%d.jpg\<close>, the input frame rate
  of the processor, which is 24 when the options give none, the format mp4, the codec
  libx264 and the output option \<^verbatim>\<open>-movflags frag_keyframe+empty_moov\<close>; and whenever a
  job runs the encoder, it runs this command on its output directory.
\<close>

theorem encoder_invocation:
  "command (createVideoFromImages proc inputDir)
     = \<lparr>input_pattern = inputDir @ ''/%d.jpg'', inputFPS = fps proc, format = ''mp4'',
        videoCodec = ''libx264'', outputOptions = [''-movflags frag_keyframe+empty_moov'']\<rparr>
   \<and> fps (new_ImageVideoProcessor dir \<lparr>folder = f, opt_fps = None, opt_cleanup = cl\<rparr>) = 24
   \<and> fps (new_ImageVideoProcessor dir \<lparr>folder = f, opt_fps = Some x, opt_cleanup = cl\<rparr>) = x
   \<and> (RunEncoder c \<in> set (trace (final (processImagesAndCreateVideo proc lib order imagePairs fs0)))
        \<and> RunEncoder c \<notin> set (trace fs0) \<longrightarrow>
        c = \<lparr>input_pattern = outputDir proc @ ''/%d.jpg'', inputFPS = fps proc, format = ''mp4'',
             videoCodec = ''libx264'', outputOptions = [''-movflags frag_keyframe+empty_moov'']\<rparr>)"
proof -
  let ?j = "\<lparr>fs = fs0\<lparr>trace := trace fs0 @ [Mkdir (outputDir proc)]\<rparr>, failed = None\<rparr>"
  let ?done = "foldl (settle_pair proc lib) ?j (mergePromises imagePairs order)"
  have cmd: "command (createVideoFromImages proc d)
     = \<lparr>input_pattern = d @ ''/%d.jpg'', inputFPS = fps proc, format = ''mp4'',
        videoCodec = ''libx264'', outputOptions = [''-movflags frag_keyframe+empty_moov'']\<rparr>" for d
    by (simp add: createVideoFromImages_def)
  have old: "RunEncoder c \<in> set (trace fs0)" if "RunEncoder c \<in> set (trace (fs ?done))"
  proof -
    from that have "RunEncoder c \<in> set (trace (fs ?j))"
      by (rule settle_all_no_encoder)
    then show ?thesis by simp
  qed
  have job: "c = command (createVideoFromImages proc (outputDir proc))"
    if "RunEncoder c \<in> set (trace (final (processImagesAndCreateVideo proc lib order imagePairs fs0)))"
      and "RunEncoder c \<notin> set (trace fs0)"
  proof (cases "failed ?done")
    case None
    with that(1) have "RunEncoder c \<in> set (trace (fs ?done))
        \<or> c = command (createVideoFromImages proc (outputDir proc))"
      by (auto simp: job_unfold Let_def)
    with old that(2) show ?thesis by blast
  next
    case (Some e)
    with that(1) have "RunEncoder c \<in> set (trace (fs ?done))"
      by (simp add: job_unfold Let_def)
    with old that(2) show ?thesis by blast
  qed
  show ?thesis
    using job by (simp add: cmd new_ImageVideoProcessor_def)
qed

theorem encoder_invocation_witness:
  "RunEncoder \<lparr>input_pattern = ''/var/out/job/%d.jpg'', inputFPS = 24, format = ''mp4'',
                videoCodec = ''libx264'',
                outputOptions = [''-movflags frag_keyframe+empty_moov'']\<rparr>
     \<in> set (trace (final (processImagesAndCreateVideo demo_processor picture_sharp [2, 0, 1]
                           demo_pairs empty_fs)))
   \<and> \<lparr>input_pattern = ''/var/out/job/%d.jpg'', inputFPS = 24, format = ''mp4'',
        videoCodec = ''libx264'', outputOptions = [''-movflags frag_keyframe+empty_moov'']\<rparr>
     = \<lparr>input_pattern = outputDir demo_processor @ ''/%d.jpg'', inputFPS = fps demo_processor,
        format = ''mp4'', videoCodec = ''libx264'',
        outputOptions = [''-movflags frag_keyframe+empty_moov'']\<rparr>"
proof -
  let ?c = "\<lparr>input_pattern = ''/var/out/job/%d.jpg'', inputFPS = 24, format = ''mp4'',
             videoCodec = ''libx264'', outputOptions = [''-movflags frag_keyframe+empty_moov'']\<rparr>"
  have run: "RunEncoder ?c \<in> set (trace (final (processImagesAndCreateVideo demo_processor
                picture_sharp [2, 0, 1] demo_pairs empty_fs)))"
    by code_simp
  have new: "RunEncoder ?c \<notin> set (trace empty_fs)"
    by (simp add: empty_fs_def)
  from encoder_invocation [of demo_processor "[]" "[]" "[]" None 0 ?c picture_sharp "[2, 0, 1]"
      demo_pairs empty_fs] run new
  show ?thesis by blast
qed

text \<open>
  C10. On an empty list of pairs the job does not reject: it makes the output directory,
  writes no file, runs the encoder on the pattern \<^verbatim>\<open><outputDir>/%d.jpg\<close> of the (empty)
  directory and resolves with the stream, before any event of the encoder.
\<close>

theorem empty_input_still_encodes:
  "processImagesAndCreateVideo proc lib order [] fs0 =
     \<lparr>final = fs0\<lparr>trace := trace fs0 @
                  [Mkdir (outputDir proc),
                   RunEncoder \<lparr>input_pattern = outputDir proc @ ''/%d.jpg'', inputFPS = fps proc,
                               format = ''mp4'', videoCodec = ''libx264'',
                               outputOptions = [''-movflags frag_keyframe+empty_moov'']\<rparr>,
                   Resolve]\<rparr>,
      returned = Fulfilled PassThrough,
      encoder = Some \<lparr>command = \<lparr>input_pattern = outputDir proc @ ''/%d.jpg'',
                                  inputFPS = fps proc, format = ''mp4'', videoCodec = ''libx264'',
                                  outputOptions = [''-movflags frag_keyframe+empty_moov'']\<rparr>,
                       settled = Fulfilled PassThrough, delivered = [], console = []\<rparr>\<rparr>"
  by (simp add: job_unfold mergePromises_def) (simp add: createVideoFromImages_def resolve_def)

section \<open>Failure of the encoder\<close>

lemma on_event_keeps_fulfilled:
  "settled s = Fulfilled v \<Longrightarrow> settled (on_event s ev) = Fulfilled v"
  by (cases ev) (simp_all add: reject_def)

lemma on_events_keeps_fulfilled:
  "settled s = Fulfilled v \<Longrightarrow> settled (on_events s evs) = Fulfilled v"
  unfolding on_events_def
  by (induction evs arbitrary: s) (simp_all add: on_event_keeps_fulfilled)

lemma on_event_no_stream_error:
  "StreamError m \<notin> set (delivered s) \<Longrightarrow> StreamError m \<notin> set (delivered (on_event s ev))"
  by (cases ev) simp_all

lemma on_events_no_stream_error:
  "StreamError m \<notin> set (delivered s) \<Longrightarrow> StreamError m \<notin> set (delivered (on_events s evs))"
  unfolding on_events_def
  by (induction evs arbitrary: s) (simp_all add: on_event_no_stream_error)

text \<open>
  C3. The claim asks that an abnormal exit of the encoder after the stream was returned
  reach the reader of the stream as a failure distinct from the normal end. The code does
  otherwise: its error handler logs and calls \<^verbatim>\<open>reject\<close> on a promise that was resolved
  when the stream was returned, which changes nothing, and the stream receives what the
  pipe gives it, the same end of stream as after a successful run, and never an error.
\<close>

theorem encoder_crash_ends_stream_normally:
  "settled (on_events (createVideoFromImages proc inputDir) (evs @ [ExitError message out err]))
     = Fulfilled PassThrough
   \<and> delivered (on_events (createVideoFromImages proc inputDir) (evs @ [ExitError message out err]))
     = delivered (on_events (createVideoFromImages proc inputDir) (evs @ [ExitEnd]))
   \<and> (\<forall>m. StreamError m \<notin> set (delivered (on_events (createVideoFromImages proc inputDir)
                                      (evs @ [ExitError message out err]))))"
proof -
  let ?s = "createVideoFromImages proc inputDir"
  have start: "settled ?s = Fulfilled PassThrough" "delivered ?s = []"
    by (simp_all add: createVideoFromImages_def resolve_def)
  have "settled (on_events ?s (evs @ [ExitError message out err])) = Fulfilled PassThrough"
    using start(1) by (rule on_events_keeps_fulfilled)
  moreover have "delivered (on_events ?s (evs @ [ExitError message out err]))
      = delivered (on_events ?s (evs @ [ExitEnd]))"
    by (simp add: on_events_def)
  moreover have "StreamError m \<notin> set (delivered (on_events ?s (evs @ [ExitError message out err])))"
    for m
    by (rule on_events_no_stream_error) (simp add: start(2))
  ultimately show ?thesis by blast
qed

end
